theory Spec2Isabelle
  imports Complex_Main "HOL-Library.Word" "HOL-Library.Signed_Division" "HOL-Library.Log_Nat"
begin

section \<open>Numeric values of the converted argument columns\<close>

text \<open>
  Every mandatory argument is cast to a floating-point column before the row loop runs
  (\<open>convertMandatoryArguments\<close>: Float32 for the field-based functions, Float64 for the
  packed ones). A cell is therefore a not-a-number, an infinity, or a finite number.
  Finite cells carry their exact numeric value; the comparisons, casts and roundings to
  an integer below are exact on that value. The double-precision arithmetic of
  \<open>YYYYMMDDhhmmssToDateTime64\<close> (a conversion, a subtraction and a product) rounds
  every result to the nearest double, as the machine does.
\<close>

datatype flt = NaN | PInf | NInf | Fin real

fun isnan :: "flt \<Rightarrow> bool" where
  "isnan NaN = True"
| "isnan _ = False"

fun isinf :: "flt \<Rightarrow> bool" where
  "isinf PInf = True"
| "isinf NInf = True"
| "isinf _ = False"

text \<open>\<open>x >= c\<close>, \<open>x <= c\<close>, \<open>x < c\<close>, \<open>x > c\<close> against a finite constant: every
  comparison with a not-a-number is false.\<close>

fun ge_c :: "flt \<Rightarrow> real \<Rightarrow> bool" where
  "ge_c (Fin r) c = (c \<le> r)"
| "ge_c PInf c = True"
| "ge_c NInf c = False"
| "ge_c NaN c = False"

fun le_c :: "flt \<Rightarrow> real \<Rightarrow> bool" where
  "le_c (Fin r) c = (r \<le> c)"
| "le_c PInf c = False"
| "le_c NInf c = True"
| "le_c NaN c = False"

fun lt_c :: "flt \<Rightarrow> real \<Rightarrow> bool" where
  "lt_c (Fin r) c = (r < c)"
| "lt_c PInf c = False"
| "lt_c NInf c = True"
| "lt_c NaN c = False"

fun gt_c :: "flt \<Rightarrow> real \<Rightarrow> bool" where
  "gt_c (Fin r) c = (c < r)"
| "gt_c PInf c = True"
| "gt_c NInf c = False"
| "gt_c NaN c = False"

text \<open>A floating-point to integer conversion discards the fractional part.\<close>

definition trunc :: "real \<Rightarrow> int" where
  "trunc r = (if 0 \<le> r then \<lfloor>r\<rfloor> else \<lceil>r\<rceil>)"

text \<open>
  \<open>static_cast<Int16>\<close>, \<open>static_cast<UInt8>\<close>, \<open>static_cast<Int32>\<close> and
  \<open>static_cast<Int64>\<close> of a numeric value: truncation, then the low bits of the target
  width. The source applies them behind range checks only, so a non-finite operand never
  reaches them; the model returns 0 there.
\<close>

fun static_cast_Int16 :: "flt \<Rightarrow> int" where
  "static_cast_Int16 (Fin r) = sint (word_of_int (trunc r) :: 16 word)"
| "static_cast_Int16 _ = 0"

fun static_cast_UInt8 :: "flt \<Rightarrow> int" where
  "static_cast_UInt8 (Fin r) = uint (word_of_int (trunc r) :: 8 word)"
| "static_cast_UInt8 _ = 0"

fun static_cast_Int32 :: "flt \<Rightarrow> int" where
  "static_cast_Int32 (Fin r) = sint (word_of_int (trunc r) :: 32 word)"
| "static_cast_Int32 _ = 0"

fun static_cast_Int64 :: "flt \<Rightarrow> int" where
  "static_cast_Int64 (Fin r) = sint (word_of_int (trunc r) :: 64 word)"
| "static_cast_Int64 _ = 0"

text \<open>
  \<open>std::llround\<close>: the nearest integer, halfway cases away from zero. When the rounded
  value does not fit \<open>long long\<close> the C++ result is unspecified and no exception is
  thrown; the model takes \<open>LLONG_MIN\<close>, the value an x86-64 conversion returns.
\<close>

definition round_half_away :: "real \<Rightarrow> int" where
  "round_half_away x = (if 0 \<le> x then \<lfloor>x + 1 / 2\<rfloor> else - \<lfloor>1 / 2 - x\<rfloor>)"

definition LLONG_MIN :: int where
  "LLONG_MIN = - (2 ^ 63)"

fun llround :: "flt \<Rightarrow> int" where
  "llround (Fin x) = (let r = round_half_away x
                      in if LLONG_MIN \<le> r \<and> r < 2 ^ 63 then r else LLONG_MIN)"
| "llround _ = LLONG_MIN"

section \<open>Double-precision arithmetic\<close>

text \<open>
  A double is an integer multiple of a power of two, the quantum of its binade: 53
  significant bits, the smallest quantum \<open>2^-1074\<close>, and magnitudes below \<open>2^1024\<close>.
  Every arithmetic result is the exact result rounded to the nearest double, halfway cases
  to the even multiple; a rounded magnitude of \<open>2^1024\<close> or more is an infinity. The sign
  of zero is not represented.
\<close>

definition round_even :: "real \<Rightarrow> int" where
  "round_even y =
     (let f = \<lfloor>y\<rfloor>; d = y - of_int f
      in if d < 1 / 2 then f
         else if 1 / 2 < d then f + 1
         else if even f then f else f + 1)"

text \<open>For \<open>a > 0\<close>, the exponent \<open>k\<close> with \<open>2^k \<le> a < 2^(k+1)\<close>.\<close>

definition ilog2 :: "real \<Rightarrow> int" where
  "ilog2 a = (if 1 \<le> a then bitlen \<lfloor>a\<rfloor> - 1 else - bitlen (\<lceil>1 / a\<rceil> - 1))"

definition quantum_exp :: "real \<Rightarrow> int" where
  "quantum_exp y = max (- 1074) (ilog2 \<bar>y\<bar> - 52)"

text \<open>The multiple of the quantum of \<open>y\<close> nearest to \<open>y\<close>.\<close>

definition round_to_double :: "real \<Rightarrow> real" where
  "round_to_double y =
     (let q = 2 powi quantum_exp y in of_int (round_even (y / q)) * q)"

definition double_of_real :: "real \<Rightarrow> flt" where
  "double_of_real y =
     (let v = round_to_double y
      in if 2 ^ 1024 \<le> \<bar>v\<bar> then (if 0 < y then PInf else NInf) else Fin v)"

text \<open>The conversion of an integer operand to \<open>double\<close>.\<close>

definition double_of_int :: "int \<Rightarrow> flt" where
  "double_of_int i = double_of_real (of_int i)"

fun flt_sub :: "flt \<Rightarrow> flt \<Rightarrow> flt" where
  "flt_sub (Fin a) (Fin b) = double_of_real (a - b)"
| "flt_sub NaN _ = NaN"
| "flt_sub _ NaN = NaN"
| "flt_sub PInf PInf = NaN"
| "flt_sub NInf NInf = NaN"
| "flt_sub PInf _ = PInf"
| "flt_sub NInf _ = NInf"
| "flt_sub _ PInf = NInf"
| "flt_sub _ NInf = PInf"

fun flt_mul :: "flt \<Rightarrow> flt \<Rightarrow> flt" where
  "flt_mul (Fin a) (Fin b) = double_of_real (a * b)"
| "flt_mul NaN _ = NaN"
| "flt_mul _ NaN = NaN"
| "flt_mul PInf (Fin b) = (if b = 0 then NaN else if 0 < b then PInf else NInf)"
| "flt_mul NInf (Fin b) = (if b = 0 then NaN else if 0 < b then NInf else PInf)"
| "flt_mul (Fin a) PInf = (if a = 0 then NaN else if 0 < a then PInf else NInf)"
| "flt_mul (Fin a) NInf = (if a = 0 then NaN else if 0 < a then NInf else PInf)"
| "flt_mul PInf PInf = PInf"
| "flt_mul NInf NInf = PInf"
| "flt_mul PInf NInf = NInf"
| "flt_mul NInf PInf = NInf"

section \<open>The calendar service and the date traits\<close>

text \<open>
  \<open>DateLUTImpl\<close> and the macros \<open>DATE_LUT_MIN_YEAR\<close>, \<open>DATE_LUT_MAX_YEAR\<close> are declared
  outside \<open>makeDate.cpp\<close>; the functions take them as a parameter. The record stands
  for the lookup table of the resolved time zone.
\<close>

record DateLUTImpl =
  makeDayNum :: "int \<Rightarrow> int \<Rightarrow> int \<Rightarrow> int"
  makeDateTime :: "int \<Rightarrow> int \<Rightarrow> int \<Rightarrow> int \<Rightarrow> int \<Rightarrow> int \<Rightarrow> int"
  DATE_LUT_MIN_YEAR :: int
  DATE_LUT_MAX_YEAR :: int

record Traits =
  makeDateName :: string
  YYYYMMDDName :: string
  MIN_YEAR :: int
  MAX_YEAR :: int
  MAX_DATE :: "int \<times> int \<times> int"

definition DateTraits :: Traits where
  "DateTraits = \<lparr> makeDateName = ''makeDate'', YYYYMMDDName = ''YYYYMMDDToDate'',
                  MIN_YEAR = 1970, MAX_YEAR = 2149, MAX_DATE = (2149, 6, 6) \<rparr>"

definition Date32Traits :: Traits where
  "Date32Traits = \<lparr> makeDateName = ''makeDate32'', YYYYMMDDName = ''YYYYMMDDToDate32'',
                    MIN_YEAR = 1900, MAX_YEAR = 2299, MAX_DATE = (2299, 12, 31) \<rparr>"

text \<open>
  The errors a call can end with: the two raised in \<open>makeDate.cpp\<close>, with the name of
  the function, and the one of the decimal packing.
\<close>

datatype error = BAD_ARGUMENTS string | ARGUMENT_OUT_OF_BOUND string | DECIMAL_OVERFLOW

definition max_days_since_epoch :: "Traits \<Rightarrow> DateLUTImpl \<Rightarrow> int" where
  "max_days_since_epoch t date_lut =
     (case MAX_DATE t of (y, m, d) \<Rightarrow> makeDayNum date_lut y m d)"

section \<open>makeDate, makeDate32\<close>

text \<open>
  The body of the row loop of the (year, month, day) variant. The result is the 32-bit
  \<open>day_num\<close> that the loop assigns to the result cell; the element type of the result
  column is declared with the data types, outside \<open>makeDate.cpp\<close>.
\<close>

definition makeDate_year_month_day ::
  "Traits \<Rightarrow> DateLUTImpl \<Rightarrow> flt \<Rightarrow> flt \<Rightarrow> flt \<Rightarrow> int" where
  "makeDate_year_month_day t date_lut year month day =
     (if ge_c year (of_int (MIN_YEAR t)) \<and> le_c year (of_int (MAX_YEAR t)) \<and>
         ge_c month 1 \<and> le_c month 12 \<and>
         ge_c day 1 \<and> le_c day 31
      then
        (let days_since_epoch =
               makeDayNum date_lut (static_cast_Int16 year) (static_cast_UInt8 month)
                 (static_cast_UInt8 day)
         in if days_since_epoch \<le> max_days_since_epoch t date_lut then days_since_epoch else 0)
      else 0)"

text \<open>The body of the row loop of the (year, dayofyear) variant.\<close>

definition makeDate_year_dayofyear ::
  "Traits \<Rightarrow> DateLUTImpl \<Rightarrow> flt \<Rightarrow> flt \<Rightarrow> int" where
  "makeDate_year_dayofyear t date_lut year dayofyear =
     (if ge_c year (of_int (MIN_YEAR t)) \<and> le_c year (of_int (MAX_YEAR t)) \<and>
         ge_c dayofyear 1 \<and> le_c dayofyear 365
      then
        (let days_since_epoch =
               makeDayNum date_lut (static_cast_Int16 year) 1 1 + static_cast_Int32 dayofyear - 1
         in if days_since_epoch \<le> max_days_since_epoch t date_lut then days_since_epoch else 0)
      else 0)"

text \<open>The variant is chosen by the number of arguments; the batch is a list of rows.\<close>

datatype makeDate_arguments =
  YearMonthDay "(flt \<times> flt \<times> flt) list"
| YearDayOfYear "(flt \<times> flt) list"

fun FunctionMakeDate_executeImpl ::
  "Traits \<Rightarrow> DateLUTImpl \<Rightarrow> makeDate_arguments \<Rightarrow> error + int list" where
  "FunctionMakeDate_executeImpl t date_lut (YearMonthDay rows) =
     Inr (map (\<lambda>(year, month, day). makeDate_year_month_day t date_lut year month day) rows)"
| "FunctionMakeDate_executeImpl t date_lut (YearDayOfYear rows) =
     Inr (map (\<lambda>(year, dayofyear). makeDate_year_dayofyear t date_lut year dayofyear) rows)"

section \<open>YYYYMMDDToDate, YYYYMMDDToDate32\<close>

text \<open>The loop body after the finiteness check.\<close>

definition YYYYMMDDToDate_row :: "Traits \<Rightarrow> DateLUTImpl \<Rightarrow> flt \<Rightarrow> int" where
  "YYYYMMDDToDate_row t date_lut x =
     (let yyyymmdd = llround x;
          year = yyyymmdd sdiv 10000;
          month = yyyymmdd sdiv 100 smod 100;
          day = yyyymmdd smod 100
      in if MIN_YEAR t \<le> year \<and> year \<le> MAX_YEAR t \<and>
            1 \<le> month \<and> month \<le> 12 \<and>
            1 \<le> day \<and> day \<le> 31
         then
           (let days_since_epoch =
                  makeDayNum date_lut (static_cast_Int16 (Fin (of_int year)))
                    (static_cast_UInt8 (Fin (of_int month))) (static_cast_UInt8 (Fin (of_int day)))
            in if days_since_epoch \<le> max_days_since_epoch t date_lut
               then days_since_epoch else 0)
         else 0)"

text \<open>The row loop: the first non-finite cell aborts the call, and the exception
  discards the partly filled result column.\<close>

fun FunctionYYYYYMMDDToDate_executeImpl ::
  "Traits \<Rightarrow> DateLUTImpl \<Rightarrow> flt list \<Rightarrow> error + int list" where
  "FunctionYYYYYMMDDToDate_executeImpl t date_lut [] = Inr []"
| "FunctionYYYYYMMDDToDate_executeImpl t date_lut (c # cs) =
     (if isinf c \<or> isnan c then Inl (BAD_ARGUMENTS (YYYYMMDDName t))
      else
        (case FunctionYYYYYMMDDToDate_executeImpl t date_lut cs of
           Inl e \<Rightarrow> Inl e
         | Inr res \<Rightarrow> Inr (YYYYMMDDToDate_row t date_lut c # res)))"

section \<open>makeDateTime, makeDateTime64\<close>

definition minDateTime :: "DateLUTImpl \<Rightarrow> int" where
  "minDateTime lut = makeDateTime lut (DATE_LUT_MIN_YEAR lut - 1) 1 1 0 0 0"

definition maxDateTime :: "DateLUTImpl \<Rightarrow> int" where
  "maxDateTime lut = makeDateTime lut (DATE_LUT_MAX_YEAR lut + 1) 1 1 23 59 59"

text \<open>
  \<open>dateTime<T>\<close>. The field-based functions call it with floating-point fields, the
  packed ones with \<open>long long\<close> fields, which are never not-a-number and are passed
  here as the finite numbers they are.
\<close>

definition dateTime ::
  "flt \<Rightarrow> flt \<Rightarrow> flt \<Rightarrow> flt \<Rightarrow> flt \<Rightarrow> flt \<Rightarrow> DateLUTImpl \<Rightarrow> int" where
  "dateTime year month day_of_month hour minute second lut =
     (if isnan year \<or> isnan month \<or> isnan day_of_month \<or>
         isnan hour \<or> isnan minute \<or> isnan second \<or>
         lt_c year (of_int (DATE_LUT_MIN_YEAR lut)) \<or> lt_c month 1 \<or> gt_c month 12 \<or>
         lt_c day_of_month 1 \<or> gt_c day_of_month 31 \<or>
         lt_c hour 0 \<or> gt_c hour 99 \<or> lt_c minute 0 \<or> gt_c minute 99 \<or>
         lt_c second 0 \<or> gt_c second 99
      then minDateTime lut
      else if gt_c year (of_int (DATE_LUT_MAX_YEAR lut)) then maxDateTime lut
      else makeDateTime lut
             (static_cast_Int16 year) (static_cast_UInt8 month) (static_cast_UInt8 day_of_month)
             (static_cast_UInt8 hour) (static_cast_UInt8 minute) (static_cast_UInt8 second))"

text \<open>The saturation applied before the value is stored as \<open>UInt32\<close>.\<close>

definition clamp_UInt32 :: "int \<Rightarrow> int" where
  "clamp_UInt32 date_time =
     (if date_time < 0 then 0
      else if date_time > 0xFFFFFFFF then 0xFFFFFFFF
      else date_time)"

definition makeDateTime_row ::
  "DateLUTImpl \<Rightarrow> flt \<Rightarrow> flt \<Rightarrow> flt \<Rightarrow> flt \<Rightarrow> flt \<Rightarrow> flt \<Rightarrow> int" where
  "makeDateTime_row date_lut year month day hour minute second =
     uint (word_of_int (clamp_UInt32 (dateTime year month day hour minute second date_lut))
             :: 32 word)"

definition DEFAULT_PRECISION :: nat where
  "DEFAULT_PRECISION = 3"

definition extractPrecision :: "string \<Rightarrow> int \<Rightarrow> error + nat" where
  "extractPrecision name precision =
     (if precision < 0 \<or> precision > 9 then Inl (ARGUMENT_OUT_OF_BOUND name)
      else Inr (nat precision))"

text \<open>
  Modelled from the spec: \<open>DecimalUtils::decimalFromComponents\<close> is defined outside
  \<open>makeDate.cpp\<close>. The specification describes it as the composition
  \<open>value = seconds * 10^precision + fraction\<close>, sign-aware for negative seconds. The
  fraction enters with its digits below the scale, the remainder of the truncating
  division by \<open>10^precision\<close>; a fraction within \<open>0 .. 10^precision - 1\<close> is its own
  remainder.
\<close>

definition decimalFromComponents :: "int \<Rightarrow> int \<Rightarrow> nat \<Rightarrow> int" where
  "decimalFromComponents whole fractional scale =
     whole * 10 ^ scale + (if whole < 0 then - 1 else 1) * (fractional smod 10 ^ scale)"

text \<open>
  Modelled from the spec: the call of \<open>decimalFromComponents\<close>. The specification has the
  seconds, the fraction and the packed value as signed 64-bit integers and does not say
  what happens beyond that range; the helper multiplies and adds with overflow checks and
  ends the call with a decimal overflow error when the scaled seconds or the sum leave
  the range. \<open>decimalFromComponents\<close> above is the value; this is the call.
\<close>

definition fits_Int64 :: "int \<Rightarrow> bool" where
  "fits_Int64 v = (- (2 ^ 63) \<le> v \<and> v < 2 ^ 63)"

definition decimalFromComponents_checked :: "int \<Rightarrow> int \<Rightarrow> nat \<Rightarrow> error + int" where
  "decimalFromComponents_checked whole fractional scale =
     (if \<not> fits_Int64 (whole * 10 ^ scale) then Inl DECIMAL_OVERFLOW
      else if \<not> fits_Int64 (decimalFromComponents whole fractional scale)
        then Inl DECIMAL_OVERFLOW
      else Inr (decimalFromComponents whole fractional scale))"

text \<open>
  The loop body of \<open>makeDateTime64\<close> up to the call of \<open>decimalFromComponents\<close>: the
  seconds and the fraction handed to it, the fraction converted by the
  \<open>static_cast<Int64>\<close> of the call. \<open>fraction_data\<close> is \<open>None\<close> when the call has no
  fraction argument.
\<close>

definition makeDateTime64_components ::
  "DateLUTImpl \<Rightarrow> nat \<Rightarrow> flt \<Rightarrow> flt \<Rightarrow> flt \<Rightarrow> flt \<Rightarrow> flt \<Rightarrow> flt \<Rightarrow> flt option
     \<Rightarrow> int \<times> int" where
  "makeDateTime64_components date_lut precision year month day hour minute second fraction_data =
     (let max_fraction = 10 ^ precision - 1;
          min_date_time = minDateTime date_lut;
          max_date_time = maxDateTime date_lut;
          date_time = dateTime year month day hour minute second date_lut
      in if date_time = min_date_time then (date_time, static_cast_Int64 (Fin 0))
         else if date_time = max_date_time then (date_time, static_cast_Int64 (Fin 999999999))
         else
           (let fraction = (case fraction_data of Some f \<Rightarrow> f | None \<Rightarrow> Fin 0)
            in if isnan fraction then (min_date_time, static_cast_Int64 (Fin 0))
               else if lt_c fraction 0 then (date_time, static_cast_Int64 (Fin 0))
               else if gt_c fraction max_fraction
                 then (date_time, static_cast_Int64 (Fin max_fraction))
               else (date_time, static_cast_Int64 fraction)))"

definition makeDateTime64_row ::
  "DateLUTImpl \<Rightarrow> nat \<Rightarrow> flt \<Rightarrow> flt \<Rightarrow> flt \<Rightarrow> flt \<Rightarrow> flt \<Rightarrow> flt \<Rightarrow> flt option \<Rightarrow> int" where
  "makeDateTime64_row date_lut precision year month day hour minute second fraction_data =
     (case makeDateTime64_components date_lut precision year month day hour minute second
             fraction_data of
        (date_time, fraction) \<Rightarrow> decimalFromComponents date_time fraction precision)"


section \<open>YYYYMMDDhhmmssToDateTime, YYYYMMDDhhmmssToDateTime64\<close>

text \<open>The six fields taken from the rounded argument by truncating division.\<close>

definition decompose :: "int \<Rightarrow> int \<times> int \<times> int \<times> int \<times> int \<times> int" where
  "decompose yyyymmddhhmmss =
     (let yyyymmdd = yyyymmddhhmmss sdiv 1000000;
          hhmmss = yyyymmddhhmmss smod 1000000;
          year = yyyymmdd sdiv 10000;
          month = yyyymmdd sdiv 100 smod 100;
          day = yyyymmdd smod 100;
          hour = hhmmss sdiv 10000;
          minute = hhmmss sdiv 100 smod 100;
          second = hhmmss smod 100
      in (year, month, day, hour, minute, second))"

definition dateTime_of_fields ::
  "DateLUTImpl \<Rightarrow> int \<times> int \<times> int \<times> int \<times> int \<times> int \<Rightarrow> int" where
  "dateTime_of_fields date_lut flds =
     (case flds of (year, month, day, hour, minute, second) \<Rightarrow>
        dateTime (Fin (of_int year)) (Fin (of_int month)) (Fin (of_int day))
          (Fin (of_int hour)) (Fin (of_int minute)) (Fin (of_int second)) date_lut)"

definition YYYYMMDDhhmmssToDateTime_row :: "DateLUTImpl \<Rightarrow> flt \<Rightarrow> int" where
  "YYYYMMDDhhmmssToDateTime_row date_lut x =
     uint (word_of_int (clamp_UInt32 (dateTime_of_fields date_lut (decompose (llround x))))
             :: 32 word)"

fun FunctionYYYYMMDDhhmmssToDateTime_executeImpl ::
  "DateLUTImpl \<Rightarrow> flt list \<Rightarrow> error + int list" where
  "FunctionYYYYMMDDhhmmssToDateTime_executeImpl date_lut [] = Inr []"
| "FunctionYYYYMMDDhhmmssToDateTime_executeImpl date_lut (c # cs) =
     (if isinf c \<or> isnan c then Inl (BAD_ARGUMENTS ''YYYYMMDDhhmmssToDateTime'')
      else
        (case FunctionYYYYMMDDhhmmssToDateTime_executeImpl date_lut cs of
           Inl e \<Rightarrow> Inl e
         | Inr res \<Rightarrow> Inr (YYYYMMDDhhmmssToDateTime_row date_lut c # res)))"

text \<open>
  The loop body of \<open>YYYYMMDDhhmmssToDateTime64\<close> up to the call of
  \<open>decimalFromComponents\<close>: the seconds and the fraction handed to it. The residue
  \<open>decimal\<close> is a double subtraction of the converted \<open>long long\<close>, and the fraction
  rounds a double product.
\<close>

definition YYYYMMDDhhmmssToDateTime64_components ::
  "DateLUTImpl \<Rightarrow> nat \<Rightarrow> flt \<Rightarrow> int \<times> int" where
  "YYYYMMDDhhmmssToDateTime64_components date_lut precision float_date =
     (let fraction_pow = 10 ^ precision;
          yyyymmddhhmmss = llround float_date;
          decimal = flt_sub float_date (double_of_int yyyymmddhhmmss);
          date_time = dateTime_of_fields date_lut (decompose yyyymmddhhmmss);
          fraction = llround (flt_mul decimal (double_of_int fraction_pow))
      in (date_time, fraction))"

definition YYYYMMDDhhmmssToDateTime64_row :: "DateLUTImpl \<Rightarrow> nat \<Rightarrow> flt \<Rightarrow> int" where
  "YYYYMMDDhhmmssToDateTime64_row date_lut precision x =
     (case YYYYMMDDhhmmssToDateTime64_components date_lut precision x of
        (date_time, fraction) \<Rightarrow> decimalFromComponents date_time fraction precision)"

text \<open>
  The row loop: rows are handled in order, so the first row that is not finite or whose
  packing is refused ends the call.
\<close>

fun YYYYMMDDhhmmssToDateTime64_loop :: "DateLUTImpl \<Rightarrow> nat \<Rightarrow> flt list \<Rightarrow> error + int list" where
  "YYYYMMDDhhmmssToDateTime64_loop date_lut precision [] = Inr []"
| "YYYYMMDDhhmmssToDateTime64_loop date_lut precision (c # cs) =
     (if isinf c \<or> isnan c then Inl (BAD_ARGUMENTS ''YYYYMMDDhhmmssToDateTime64'')
      else
        (case YYYYMMDDhhmmssToDateTime64_components date_lut precision c of
           (date_time, fraction) \<Rightarrow>
             (case decimalFromComponents_checked date_time fraction precision of
                Inl e \<Rightarrow> Inl e
              | Inr v \<Rightarrow>
                  (case YYYYMMDDhhmmssToDateTime64_loop date_lut precision cs of
                     Inl e \<Rightarrow> Inl e
                   | Inr res \<Rightarrow> Inr (v # res)))))"

text \<open>The optional precision argument is read before the loop starts.\<close>

definition FunctionYYYYMMDDhhmmssToDateTime64_executeImpl ::
  "DateLUTImpl \<Rightarrow> int option \<Rightarrow> flt list \<Rightarrow> error + int list" where
  "FunctionYYYYMMDDhhmmssToDateTime64_executeImpl date_lut precision_argument cells =
     (case (case precision_argument of
              None \<Rightarrow> Inr DEFAULT_PRECISION
            | Some a \<Rightarrow> extractPrecision ''YYYYMMDDhhmmssToDateTime64'' a) of
        Inl e \<Rightarrow> Inl e
      | Inr precision \<Rightarrow> YYYYMMDDhhmmssToDateTime64_loop date_lut precision cells)"

section \<open>A calendar service for concrete instances\<close>

text \<open>
  Modelled from the spec: the calendar service is an external collaborator. For
  evaluating the functions at concrete rows, \<open>utc_lut\<close> is the proleptic Gregorian
  calendar in UTC: day-numbers count from 1970-01-01, a day of month beyond the end of the
  month rolls over into the next one, and seconds beyond 59 roll over likewise. The
  global year bounds are those of the wide date; the table of seconds covers 1900-01-01
  to 2299-12-31, a year before it gives its first day and a year after it its last day.
\<close>

definition days_from_civil :: "int \<Rightarrow> int \<Rightarrow> int \<Rightarrow> int" where
  "days_from_civil y m d =
     (let y' = (if m \<le> 2 then y - 1 else y);
          era = y' div 400;
          yoe = y' - era * 400;
          doy = (153 * (if m > 2 then m - 3 else m + 9) + 2) div 5 + d - 1;
          doe = yoe * 365 + yoe div 4 - yoe div 100 + doy
      in era * 146097 + doe - 719468)"

text \<open>Modelled from the spec: the table of the UTC calendar, with the year bounds 1900
  and 2299.\<close>

definition utc_lut :: DateLUTImpl where
  "utc_lut = \<lparr> makeDayNum = days_from_civil,
               makeDateTime = (\<lambda>y m d h mi s.
                 (if y < 1900 then days_from_civil 1900 1 1
                  else if 2299 < y then days_from_civil 2299 12 31
                  else days_from_civil y m d) * 86400 + h * 3600 + mi * 60 + s),
               DATE_LUT_MIN_YEAR = 1900,
               DATE_LUT_MAX_YEAR = 2299 \<rparr>"

section \<open>Vocabulary for the statements\<close>

text \<open>A cell lies in a closed interval when it is a finite number between the bounds.\<close>

fun in_range :: "flt \<Rightarrow> real \<Rightarrow> real \<Rightarrow> bool" where
  "in_range (Fin r) lo hi = (lo \<le> r \<and> r \<le> hi)"
| "in_range _ lo hi = False"

text \<open>The integer part of a finite cell, fractional digits dropped.\<close>

fun truncated :: "flt \<Rightarrow> int" where
  "truncated (Fin r) = trunc r"
| "truncated _ = 0"

text \<open>
  The packing of a row of \<open>YYYYMMDDhhmmssToDateTime64\<close> stays within the signed 64-bit
  range: the scaled seconds do, and so does the packed value.
\<close>

definition packing_fits :: "DateLUTImpl \<Rightarrow> nat \<Rightarrow> flt \<Rightarrow> bool" where
  "packing_fits date_lut precision c =
     (case YYYYMMDDhhmmssToDateTime64_components date_lut precision c of
        (date_time, fraction) \<Rightarrow>
          fits_Int64 (date_time * 10 ^ precision) \<and>
          fits_Int64 (decimalFromComponents date_time fraction precision))"

section \<open>Casts and truncation inside the checked ranges\<close>

lemma trunc_of_int: "trunc (of_int i) = i"
  by (simp add: trunc_def)

lemma trunc_lower: "of_int a \<le> r \<Longrightarrow> 0 \<le> a \<Longrightarrow> a \<le> trunc r"
  by (simp add: trunc_def le_floor_iff)

lemma trunc_upper: "r \<le> of_int b \<Longrightarrow> 0 \<le> r \<Longrightarrow> trunc r \<le> b"
  by (simp add: trunc_def floor_le_iff)

lemma sint16_id: "- 32768 \<le> i \<Longrightarrow> i \<le> 32767 \<Longrightarrow> sint (word_of_int i :: 16 word) = i"
  by (simp add: sint_sbintrunc' signed_take_bit_int_eq_self)

lemma uint8_id: "0 \<le> i \<Longrightarrow> i \<le> 255 \<Longrightarrow> uint (word_of_int i :: 8 word) = i"
  by (simp add: uint_word_of_int)

lemma sint32_id: "- 2147483648 \<le> i \<Longrightarrow> i \<le> 2147483647 \<Longrightarrow> sint (word_of_int i :: 32 word) = i"
  by (simp add: sint_sbintrunc' signed_take_bit_int_eq_self)

lemma sint64_id: "- 9223372036854775808 \<le> i \<Longrightarrow> i \<le> 9223372036854775807 \<Longrightarrow> sint (word_of_int i :: 64 word) = i"
  by (simp add: sint_sbintrunc' signed_take_bit_int_eq_self)

lemma uint32_id: "0 \<le> i \<Longrightarrow> i \<le> 4294967295 \<Longrightarrow> uint (word_of_int i :: 32 word) = i"
  by (simp add: uint_word_of_int)

lemma static_cast_Int16_trunc:
  assumes "of_int a \<le> r" "r \<le> of_int b" "0 \<le> a" "b \<le> 32767"
  shows "static_cast_Int16 (Fin r) = trunc r"
proof -
  have "0 \<le> r" using assms(1,3) by (meson of_int_0_le_iff order_trans)
  have "a \<le> trunc r" using assms by (simp add: trunc_lower)
  moreover have "trunc r \<le> b" using assms \<open>0 \<le> r\<close> by (simp add: trunc_upper)
  ultimately show ?thesis using assms by (simp add: sint16_id)
qed

lemma static_cast_UInt8_trunc:
  assumes "0 \<le> r" "r \<le> 255"
  shows "static_cast_UInt8 (Fin r) = trunc r"
proof -
  have "0 \<le> trunc r" using assms by (simp add: trunc_def)
  moreover have "trunc r \<le> 255" using trunc_upper [of r 255] assms by simp
  ultimately show ?thesis by (simp add: uint8_id)
qed

lemma static_cast_Int32_trunc:
  assumes "0 \<le> r" "r \<le> 2147483647"
  shows "static_cast_Int32 (Fin r) = trunc r"
proof -
  have "0 \<le> trunc r" using assms by (simp add: trunc_def)
  moreover have "trunc r \<le> 2147483647" using trunc_upper [of r 2147483647] assms by simp
  ultimately show ?thesis by (simp add: sint32_id)
qed

section \<open>The date constructors\<close>

lemma ge_c_nonfinite: "ge_c x a \<Longrightarrow> le_c x b \<Longrightarrow> \<exists>r. x = Fin r \<and> a \<le> r \<and> r \<le> b"
  by (cases x) simp_all

lemma makeDate_year_month_day_Fin:
  assumes "0 \<le> MIN_YEAR t" "MAX_YEAR t \<le> 32767"
  shows "makeDate_year_month_day t lut (Fin y) (Fin m) (Fin d) =
     (if of_int (MIN_YEAR t) \<le> y \<and> y \<le> of_int (MAX_YEAR t) \<and>
         1 \<le> m \<and> m \<le> 12 \<and> 1 \<le> d \<and> d \<le> 31 \<and>
         makeDayNum lut (trunc y) (trunc m) (trunc d) \<le> max_days_since_epoch t lut
      then makeDayNum lut (trunc y) (trunc m) (trunc d) else 0)"
proof (cases "of_int (MIN_YEAR t) \<le> y \<and> y \<le> of_int (MAX_YEAR t) \<and>
         1 \<le> m \<and> m \<le> 12 \<and> 1 \<le> d \<and> d \<le> 31")
  case True
  then have "static_cast_Int16 (Fin y) = trunc y"
    using assms static_cast_Int16_trunc [of "MIN_YEAR t" y "MAX_YEAR t"] by simp
  moreover have "static_cast_UInt8 (Fin m) = trunc m" "static_cast_UInt8 (Fin d) = trunc d"
    using True by (simp_all add: static_cast_UInt8_trunc del: static_cast_UInt8.simps)
  ultimately show ?thesis
    using True by (simp add: makeDate_year_month_day_def Let_def)
next
  case False
  then show ?thesis
    by (auto simp add: makeDate_year_month_day_def)
qed

lemma makeDate_year_month_day_nonfinite:
  assumes "\<not> (\<exists>y m d. year = Fin y \<and> month = Fin m \<and> day = Fin d)"
  shows "makeDate_year_month_day t lut year month day = 0"
proof -
  have "\<not> (ge_c year (of_int (MIN_YEAR t)) \<and> le_c year (of_int (MAX_YEAR t)) \<and>
         ge_c month 1 \<and> le_c month 12 \<and> ge_c day 1 \<and> le_c day 31)"
    using assms by (meson ge_c_nonfinite)
  then show ?thesis
    unfolding makeDate_year_month_day_def by (simp only: if_False)
qed

lemma makeDate_year_month_day_cases:
  assumes "0 \<le> MIN_YEAR t" "MAX_YEAR t \<le> 32767"
  shows "makeDate_year_month_day t lut year month day =
     (case (year, month, day) of
        (Fin y, Fin m, Fin d) \<Rightarrow>
          if of_int (MIN_YEAR t) \<le> y \<and> y \<le> of_int (MAX_YEAR t) \<and>
             1 \<le> m \<and> m \<le> 12 \<and> 1 \<le> d \<and> d \<le> 31 \<and>
             makeDayNum lut (trunc y) (trunc m) (trunc d) \<le> max_days_since_epoch t lut
          then makeDayNum lut (trunc y) (trunc m) (trunc d) else 0
      | _ \<Rightarrow> 0)"
proof (cases "\<exists>y m d. year = Fin y \<and> month = Fin m \<and> day = Fin d")
  case True
  then obtain y m d where "year = Fin y" "month = Fin m" "day = Fin d" by blast
  then show ?thesis
    using makeDate_year_month_day_Fin [OF assms] by simp
next
  case False
  then have "makeDate_year_month_day t lut year month day = 0"
    by (rule makeDate_year_month_day_nonfinite)
  moreover have "(case (year, month, day) of
        (Fin y, Fin m, Fin d) \<Rightarrow>
          if of_int (MIN_YEAR t) \<le> y \<and> y \<le> of_int (MAX_YEAR t) \<and>
             1 \<le> m \<and> m \<le> 12 \<and> 1 \<le> d \<and> d \<le> 31 \<and>
             makeDayNum lut (trunc y) (trunc m) (trunc d) \<le> max_days_since_epoch t lut
          then makeDayNum lut (trunc y) (trunc m) (trunc d) else 0
      | _ \<Rightarrow> 0) = 0"
    using False by (cases year; cases month; cases day) simp_all
  ultimately show ?thesis by simp
qed

lemma DateTraits_sel:
  "MIN_YEAR DateTraits = 1970" "MAX_YEAR DateTraits = 2149"
  "max_days_since_epoch DateTraits lut = makeDayNum lut 2149 6 6"
  "YYYYMMDDName DateTraits = ''YYYYMMDDToDate''"
  by (simp_all add: DateTraits_def max_days_since_epoch_def)

lemma Date32Traits_sel:
  "MIN_YEAR Date32Traits = 1900" "MAX_YEAR Date32Traits = 2299"
  "max_days_since_epoch Date32Traits lut = makeDayNum lut 2299 12 31"
  "YYYYMMDDName Date32Traits = ''YYYYMMDDToDate32''"
  by (simp_all add: Date32Traits_def max_days_since_epoch_def)

text \<open>
  Claim C1. In the three-argument variant, a row whose year lies in the range of the type
  (1970 to 2149 for \<open>makeDate\<close>, 1900 to 2299 for \<open>makeDate32\<close>), whose month lies in
  1..12 and whose day lies in 1..31 yields the day-number of the calendar service for
  these fields (converted to integers by the casts of the source) when that day-number
  does not exceed the day-number of the \<open>MAX_DATE\<close> triple of the type. Every other row,
  also one with a not-a-number or infinite field, yields 0. The call returns a column and
  raises nothing.
\<close>

theorem makeDate_year_month_day_result:
  "makeDate_year_month_day DateTraits lut year month day =
     (case (year, month, day) of
        (Fin y, Fin m, Fin d) \<Rightarrow>
          if 1970 \<le> y \<and> y \<le> 2149 \<and> 1 \<le> m \<and> m \<le> 12 \<and> 1 \<le> d \<and> d \<le> 31 \<and>
             makeDayNum lut (trunc y) (trunc m) (trunc d) \<le> makeDayNum lut 2149 6 6
          then makeDayNum lut (trunc y) (trunc m) (trunc d) else 0
      | _ \<Rightarrow> 0) \<and>
   makeDate_year_month_day Date32Traits lut year month day =
     (case (year, month, day) of
        (Fin y, Fin m, Fin d) \<Rightarrow>
          if 1900 \<le> y \<and> y \<le> 2299 \<and> 1 \<le> m \<and> m \<le> 12 \<and> 1 \<le> d \<and> d \<le> 31 \<and>
             makeDayNum lut (trunc y) (trunc m) (trunc d) \<le> makeDayNum lut 2299 12 31
          then makeDayNum lut (trunc y) (trunc m) (trunc d) else 0
      | _ \<Rightarrow> 0) \<and>
   FunctionMakeDate_executeImpl t lut (YearMonthDay rows) =
     Inr (map (\<lambda>(year, month, day). makeDate_year_month_day t lut year month day) rows)"
proof (intro conjI)
  show "makeDate_year_month_day DateTraits lut year month day =
     (case (year, month, day) of
        (Fin y, Fin m, Fin d) \<Rightarrow>
          if 1970 \<le> y \<and> y \<le> 2149 \<and> 1 \<le> m \<and> m \<le> 12 \<and> 1 \<le> d \<and> d \<le> 31 \<and>
             makeDayNum lut (trunc y) (trunc m) (trunc d) \<le> makeDayNum lut 2149 6 6
          then makeDayNum lut (trunc y) (trunc m) (trunc d) else 0
      | _ \<Rightarrow> 0)"
    using makeDate_year_month_day_cases [of DateTraits lut year month day]
    unfolding DateTraits_sel of_int_numeral by simp
  show "makeDate_year_month_day Date32Traits lut year month day =
     (case (year, month, day) of
        (Fin y, Fin m, Fin d) \<Rightarrow>
          if 1900 \<le> y \<and> y \<le> 2299 \<and> 1 \<le> m \<and> m \<le> 12 \<and> 1 \<le> d \<and> d \<le> 31 \<and>
             makeDayNum lut (trunc y) (trunc m) (trunc d) \<le> makeDayNum lut 2299 12 31
          then makeDayNum lut (trunc y) (trunc m) (trunc d) else 0
      | _ \<Rightarrow> 0)"
    using makeDate_year_month_day_cases [of Date32Traits lut year month day]
    unfolding Date32Traits_sel of_int_numeral by simp
  show "FunctionMakeDate_executeImpl t lut (YearMonthDay rows) =
     Inr (map (\<lambda>(year, month, day). makeDate_year_month_day t lut year month day) rows)"
    by simp
qed

lemma utc_lut_sel:
  "DATE_LUT_MIN_YEAR utc_lut = 1900" "DATE_LUT_MAX_YEAR utc_lut = 2299"
  "makeDayNum utc_lut = days_from_civil"
  "makeDateTime utc_lut y m d h mi s =
     (if y < 1900 then days_from_civil 1900 1 1
      else if 2299 < y then days_from_civil 2299 12 31
      else days_from_civil y m d) * 86400 + h * 3600 + mi * 60 + s"
  by (simp_all add: utc_lut_def)

lemma utc_days:
  "days_from_civil 2023 2 28 = 19416"
  "days_from_civil 2149 6 6 = 65535"
  "days_from_civil 2149 6 7 = 65536"
  "days_from_civil 2299 12 31 = 120529"
  "days_from_civil 2023 1 1 = 19358"
  "days_from_civil 2024 1 1 = 19723"
  "days_from_civil 2149 1 1 = 65379"
  "days_from_civil 2023 9 11 = 19611"
  "days_from_civil 2023 3 28 = 19444"
  "days_from_civil 1899 1 1 = - 25932"
  "days_from_civil 2300 1 1 = 120530"
  "days_from_civil 1969 12 31 = - 1"
  "days_from_civil 2107 1 1 = 50038"
  "days_from_civil 2023 5 15 = 19492"
  "days_from_civil 1900 1 1 = - 25567"
  "days_from_civil 1970 1 1 = 0"
  by (simp_all add: days_from_civil_def)

lemmas utc_simps = utc_lut_sel trunc_def utc_days

theorem makeDate_year_month_day_result_witness:
  "makeDate_year_month_day DateTraits utc_lut (Fin 2023) (Fin 2) (Fin 28) = 19416 \<and>
   makeDate_year_month_day DateTraits utc_lut (Fin 2023) NaN (Fin 28) = 0 \<and>
   makeDate_year_month_day DateTraits utc_lut (Fin 2149) (Fin 6) (Fin 7) = 0 \<and>
   makeDate_year_month_day Date32Traits utc_lut (Fin 2149) (Fin 6) (Fin 7) = 65536"
  using makeDate_year_month_day_result [of utc_lut "Fin 2023" "Fin 2" "Fin 28"]
    makeDate_year_month_day_result [of utc_lut "Fin 2023" NaN "Fin 28"]
    makeDate_year_month_day_result [of utc_lut "Fin 2149" "Fin 6" "Fin 7"]
  by (simp add: utc_simps)

lemma makeDate_year_dayofyear_Fin:
  assumes "0 \<le> MIN_YEAR t" "MAX_YEAR t \<le> 32767"
  shows "makeDate_year_dayofyear t lut (Fin y) (Fin n) =
     (if of_int (MIN_YEAR t) \<le> y \<and> y \<le> of_int (MAX_YEAR t) \<and> 1 \<le> n \<and> n \<le> 365 \<and>
         makeDayNum lut (trunc y) 1 1 + trunc n - 1 \<le> max_days_since_epoch t lut
      then makeDayNum lut (trunc y) 1 1 + trunc n - 1 else 0)"
proof (cases "of_int (MIN_YEAR t) \<le> y \<and> y \<le> of_int (MAX_YEAR t) \<and> 1 \<le> n \<and> n \<le> 365")
  case True
  then have "static_cast_Int16 (Fin y) = trunc y"
    using assms static_cast_Int16_trunc [of "MIN_YEAR t" y "MAX_YEAR t"] by simp
  moreover have "static_cast_Int32 (Fin n) = trunc n"
    using True by (simp add: static_cast_Int32_trunc del: static_cast_Int32.simps)
  ultimately show ?thesis
    using True by (simp add: makeDate_year_dayofyear_def Let_def)
next
  case False
  then show ?thesis
    by (auto simp add: makeDate_year_dayofyear_def)
qed

lemma makeDate_year_dayofyear_nonfinite:
  assumes "\<not> (\<exists>y n. year = Fin y \<and> dayofyear = Fin n)"
  shows "makeDate_year_dayofyear t lut year dayofyear = 0"
proof -
  have "\<not> (ge_c year (of_int (MIN_YEAR t)) \<and> le_c year (of_int (MAX_YEAR t)) \<and>
         ge_c dayofyear 1 \<and> le_c dayofyear 365)"
    using assms by (meson ge_c_nonfinite)
  then show ?thesis
    unfolding makeDate_year_dayofyear_def by (simp only: if_False)
qed

lemma makeDate_year_dayofyear_cases:
  assumes "0 \<le> MIN_YEAR t" "MAX_YEAR t \<le> 32767"
  shows "makeDate_year_dayofyear t lut year dayofyear =
     (case (year, dayofyear) of
        (Fin y, Fin n) \<Rightarrow>
          if of_int (MIN_YEAR t) \<le> y \<and> y \<le> of_int (MAX_YEAR t) \<and> 1 \<le> n \<and> n \<le> 365 \<and>
             makeDayNum lut (trunc y) 1 1 + trunc n - 1 \<le> max_days_since_epoch t lut
          then makeDayNum lut (trunc y) 1 1 + trunc n - 1 else 0
      | _ \<Rightarrow> 0)"
proof (cases "\<exists>y n. year = Fin y \<and> dayofyear = Fin n")
  case True
  then obtain y n where "year = Fin y" "dayofyear = Fin n" by blast
  then show ?thesis
    using makeDate_year_dayofyear_Fin [OF assms] by simp
next
  case False
  then have "makeDate_year_dayofyear t lut year dayofyear = 0"
    by (rule makeDate_year_dayofyear_nonfinite)
  moreover have "(case (year, dayofyear) of
        (Fin y, Fin n) \<Rightarrow>
          if of_int (MIN_YEAR t) \<le> y \<and> y \<le> of_int (MAX_YEAR t) \<and> 1 \<le> n \<and> n \<le> 365 \<and>
             makeDayNum lut (trunc y) 1 1 + trunc n - 1 \<le> max_days_since_epoch t lut
          then makeDayNum lut (trunc y) 1 1 + trunc n - 1 else 0
      | _ \<Rightarrow> 0) = 0"
    using False by (cases year; cases dayofyear) simp_all
  ultimately show ?thesis by simp
qed

text \<open>
  Claim C7 says that a two-argument row with the year in range and the day of year in
  1..365 always yields the day-number of January 1st plus the day of year minus 1. The
  source compares that sum with the maximum day-number of the type and stores 0 when it
  is larger: \<open>makeDate(2149, 200)\<close> is 0, although the sum is 65578.
\<close>

theorem makeDate_year_dayofyear_counterexample:
  "makeDate_year_dayofyear DateTraits utc_lut (Fin 2149) (Fin 200) = 0 \<and>
   makeDate_year_month_day DateTraits utc_lut (Fin 2149) (Fin 1) (Fin 1) + 200 - 1 = 65578"
  by (simp add: makeDate_year_dayofyear_def makeDate_year_month_day_def DateTraits_sel utc_simps)

text \<open>
  Claim C7, amended. In the two-argument variant, a row whose year lies in the range of
  the type and whose day of year lies in 1..365 yields the day-number of January 1st of
  that year plus the day of year (converted to an integer by the cast of the source)
  minus 1, provided this sum does not exceed the day-number of the \<open>MAX_DATE\<close> triple
  of the type; when it does, and for every other row (a day of year outside 1..365, 366
  included, a year out of range, a non-finite field), the result is 0.
\<close>

theorem makeDate_year_dayofyear_result:
  "makeDate_year_dayofyear DateTraits lut year dayofyear =
     (case (year, dayofyear) of
        (Fin y, Fin n) \<Rightarrow>
          if 1970 \<le> y \<and> y \<le> 2149 \<and> 1 \<le> n \<and> n \<le> 365 \<and>
             makeDayNum lut (trunc y) 1 1 + trunc n - 1 \<le> makeDayNum lut 2149 6 6
          then makeDayNum lut (trunc y) 1 1 + trunc n - 1 else 0
      | _ \<Rightarrow> 0) \<and>
   makeDate_year_dayofyear Date32Traits lut year dayofyear =
     (case (year, dayofyear) of
        (Fin y, Fin n) \<Rightarrow>
          if 1900 \<le> y \<and> y \<le> 2299 \<and> 1 \<le> n \<and> n \<le> 365 \<and>
             makeDayNum lut (trunc y) 1 1 + trunc n - 1 \<le> makeDayNum lut 2299 12 31
          then makeDayNum lut (trunc y) 1 1 + trunc n - 1 else 0
      | _ \<Rightarrow> 0)"
proof (intro conjI)
  show "makeDate_year_dayofyear DateTraits lut year dayofyear =
     (case (year, dayofyear) of
        (Fin y, Fin n) \<Rightarrow>
          if 1970 \<le> y \<and> y \<le> 2149 \<and> 1 \<le> n \<and> n \<le> 365 \<and>
             makeDayNum lut (trunc y) 1 1 + trunc n - 1 \<le> makeDayNum lut 2149 6 6
          then makeDayNum lut (trunc y) 1 1 + trunc n - 1 else 0
      | _ \<Rightarrow> 0)"
    using makeDate_year_dayofyear_cases [of DateTraits lut year dayofyear]
    unfolding DateTraits_sel of_int_numeral by simp
  show "makeDate_year_dayofyear Date32Traits lut year dayofyear =
     (case (year, dayofyear) of
        (Fin y, Fin n) \<Rightarrow>
          if 1900 \<le> y \<and> y \<le> 2299 \<and> 1 \<le> n \<and> n \<le> 365 \<and>
             makeDayNum lut (trunc y) 1 1 + trunc n - 1 \<le> makeDayNum lut 2299 12 31
          then makeDayNum lut (trunc y) 1 1 + trunc n - 1 else 0
      | _ \<Rightarrow> 0)"
    using makeDate_year_dayofyear_cases [of Date32Traits lut year dayofyear]
    unfolding Date32Traits_sel of_int_numeral by simp
qed

theorem makeDate_year_dayofyear_result_witness:
  "makeDate_year_dayofyear DateTraits utc_lut (Fin 2023) (Fin 42) = 19399 \<and>
   makeDate_year_dayofyear DateTraits utc_lut (Fin 2024) (Fin 366) = 0 \<and>
   makeDate_year_dayofyear DateTraits utc_lut (Fin 2149) (Fin 157) = 65535 \<and>
   makeDate_year_dayofyear DateTraits utc_lut (Fin 2149) (Fin 158) = 0 \<and>
   makeDate_year_dayofyear Date32Traits utc_lut (Fin 2149) (Fin 158) = 65536"
  using makeDate_year_dayofyear_result [of utc_lut "Fin 2023" "Fin 42"]
    makeDate_year_dayofyear_result [of utc_lut "Fin 2024" "Fin 366"]
    makeDate_year_dayofyear_result [of utc_lut "Fin 2149" "Fin 157"]
    makeDate_year_dayofyear_result [of utc_lut "Fin 2149" "Fin 158"]
  by (simp add: utc_simps)

section \<open>The packed date\<close>

text \<open>\<open>round_half_away\<close> is rounding to the nearest integer, halves away from zero.\<close>


lemma round_half_away_of_int: "round_half_away (of_int k) = k"
  by (simp add: round_half_away_def)

lemma round_half_away_tie_pos: "0 \<le> k \<Longrightarrow> round_half_away (of_int k + 1 / 2) = k + 1"
  by (simp add: round_half_away_def)

lemma round_half_away_tie_neg: "k \<le> 0 \<Longrightarrow> round_half_away (of_int k - 1 / 2) = k - 1"
  by (simp add: round_half_away_def)

lemma round_half_away_near: "\<bar>x - of_int (round_half_away x)\<bar> \<le> 1 / 2"
proof (cases "0 \<le> x")
  case True
  then have "round_half_away x = \<lfloor>x + 1 / 2\<rfloor>"
    by (simp add: round_half_away_def)
  then show ?thesis by linarith
next
  case False
  then have "round_half_away x = - \<lfloor>1 / 2 - x\<rfloor>"
    by (simp add: round_half_away_def)
  then show ?thesis by linarith
qed

lemma llround_in_range:
  "- (2 ^ 63) \<le> round_half_away x \<Longrightarrow> round_half_away x < 2 ^ 63 \<Longrightarrow>
   llround (Fin x) = round_half_away x"
  unfolding llround.simps Let_def LLONG_MIN_def by simp

lemma llround_out_of_range:
  "round_half_away x < - (2 ^ 63) \<or> 2 ^ 63 \<le> round_half_away x \<Longrightarrow>
   llround (Fin x) = - (2 ^ 63)"
  unfolding llround.simps Let_def LLONG_MIN_def by auto

lemma YYYYMMDDToDate_row_fields:
  "YYYYMMDDToDate_row t lut c =
     makeDate_year_month_day t lut (Fin (of_int (llround c sdiv 10000)))
       (Fin (of_int (llround c sdiv 100 smod 100))) (Fin (of_int (llround c smod 100)))"
  by (simp add: YYYYMMDDToDate_row_def makeDate_year_month_day_def Let_def
      del: static_cast_Int16.simps static_cast_UInt8.simps llround.simps)

lemma makeDate_year_month_day_year_low:
  "y < of_int (MIN_YEAR t) \<Longrightarrow> makeDate_year_month_day t lut (Fin y) month day = 0"
  by (simp add: makeDate_year_month_day_def)

lemma makeDate_year_month_day_year_high:
  "of_int (MAX_YEAR t) < y \<Longrightarrow> makeDate_year_month_day t lut (Fin y) month day = 0"
  by (simp add: makeDate_year_month_day_def)

lemma sdiv_10000_low: "n \<le> - (2 ^ 63) \<Longrightarrow> n sdiv 10000 \<le> - 922337203685477" for n :: int
proof -
  assume a: "n \<le> - (2 ^ 63)"
  then have "n < 0" by simp
  then have "n sdiv 10000 = - ((- n) div 10000)"
    by (simp add: signed_divide_int_def)
  moreover have "(2 ^ 63 :: int) div 10000 \<le> (- n) div 10000"
    using a by (intro zdiv_mono1) simp_all
  ultimately show ?thesis by simp
qed

lemma sdiv_10000_high: "2 ^ 63 \<le> n \<Longrightarrow> 922337203685477 \<le> n sdiv 10000" for n :: int
proof -
  assume a: "2 ^ 63 \<le> n"
  then have "0 < n" by simp
  then have "n sdiv 10000 = n div 10000"
    by (simp add: signed_divide_int_def)
  moreover have "(2 ^ 63 :: int) div 10000 \<le> n div 10000"
    using a by (intro zdiv_mono1) simp_all
  ultimately show ?thesis by simp
qed

lemma YYYYMMDDToDate_row_refines:
  assumes "- 922337203685477 < MIN_YEAR t" "MAX_YEAR t < 922337203685477"
  shows "YYYYMMDDToDate_row t lut (Fin x) =
     makeDate_year_month_day t lut (Fin (of_int (round_half_away x sdiv 10000)))
       (Fin (of_int (round_half_away x sdiv 100 smod 100)))
       (Fin (of_int (round_half_away x smod 100)))"
proof (cases "- (2 ^ 63) \<le> round_half_away x \<and> round_half_away x < 2 ^ 63")
  case True
  then have "llround (Fin x) = round_half_away x"
    by (intro llround_in_range) simp_all
  then show ?thesis
    by (simp only: YYYYMMDDToDate_row_fields)
next
  case False
  then have l: "llround (Fin x) = - (2 ^ 63)"
    by (intro llround_out_of_range) linarith
  have "(- (2 ^ 63) :: int) sdiv 10000 \<le> - 922337203685477"
    by (rule sdiv_10000_low) simp
  then have "real_of_int ((- (2 ^ 63)) sdiv 10000) < of_int (MIN_YEAR t)"
    using assms(1) by linarith
  then have lhs: "YYYYMMDDToDate_row t lut (Fin x) = 0"
    unfolding YYYYMMDDToDate_row_fields l by (rule makeDate_year_month_day_year_low)
  have "round_half_away x < - (2 ^ 63) \<or> 2 ^ 63 \<le> round_half_away x"
    using False by linarith
  then have "makeDate_year_month_day t lut (Fin (of_int (round_half_away x sdiv 10000)))
       (Fin (of_int (round_half_away x sdiv 100 smod 100)))
       (Fin (of_int (round_half_away x smod 100))) = 0"
  proof
    assume "round_half_away x < - (2 ^ 63)"
    then have "round_half_away x sdiv 10000 \<le> - 922337203685477"
      by (intro sdiv_10000_low) simp
    then have "real_of_int (round_half_away x sdiv 10000) < of_int (MIN_YEAR t)"
      using assms(1) by linarith
    then show ?thesis by (rule makeDate_year_month_day_year_low)
  next
    assume "2 ^ 63 \<le> round_half_away x"
    then have "922337203685477 \<le> round_half_away x sdiv 10000"
      by (rule sdiv_10000_high)
    then have "of_int (MAX_YEAR t) < real_of_int (round_half_away x sdiv 10000)"
      using assms(2) by linarith
    then show ?thesis by (rule makeDate_year_month_day_year_high)
  qed
  with lhs show ?thesis by simp
qed

text \<open>
  Claim C6. For every finite argument, \<open>YYYYMMDDToDate\<close> and \<open>YYYYMMDDToDate32\<close> return
  what the three-argument \<open>makeDate\<close> and \<open>makeDate32\<close> return on the fields
  \<open>n / 10000\<close>, \<open>n / 100 % 100\<close> and \<open>n % 100\<close> (truncating division) of the argument
  rounded to the nearest integer \<open>n\<close>, halves away from zero; the 0 default of
  \<open>makeDate\<close> is included. An argument whose rounded value does not fit \<open>long long\<close>
  gives 0 on both sides.
\<close>

theorem YYYYMMDDToDate_row_is_makeDate:
  "YYYYMMDDToDate_row DateTraits lut (Fin x) =
     makeDate_year_month_day DateTraits lut (Fin (of_int (round_half_away x sdiv 10000)))
       (Fin (of_int (round_half_away x sdiv 100 smod 100)))
       (Fin (of_int (round_half_away x smod 100))) \<and>
   YYYYMMDDToDate_row Date32Traits lut (Fin x) =
     makeDate_year_month_day Date32Traits lut (Fin (of_int (round_half_away x sdiv 10000)))
       (Fin (of_int (round_half_away x sdiv 100 smod 100)))
       (Fin (of_int (round_half_away x smod 100)))"
  by (simp add: YYYYMMDDToDate_row_refines DateTraits_sel Date32Traits_sel)

lemma round_half_away_20230911: "round_half_away 20230911 = 20230911"
  using round_half_away_of_int [of 20230911] by simp

theorem YYYYMMDDToDate_row_is_makeDate_witness:
  "YYYYMMDDToDate_row DateTraits utc_lut (Fin 20230911) =
     makeDate_year_month_day DateTraits utc_lut (Fin 2023) (Fin 9) (Fin 11) \<and>
   makeDate_year_month_day DateTraits utc_lut (Fin 2023) (Fin 9) (Fin 11) = 19611"
  using YYYYMMDDToDate_row_is_makeDate [of utc_lut 20230911]
  by (simp add: round_half_away_20230911 signed_divide_int_def signed_modulo_int_def
      makeDate_year_month_day_def DateTraits_sel utc_simps)

section \<open>The date-time constructors\<close>

lemma static_cast_Int16_trunc_signed:
  assumes "of_int a \<le> r" "r \<le> of_int b" "- 32768 \<le> a" "b \<le> 32767"
  shows "static_cast_Int16 (Fin r) = trunc r"
proof -
  have "- 32768 \<le> trunc r"
  proof (cases "0 \<le> r")
    case True
    then show ?thesis by (simp add: trunc_def)
  next
    case False
    have "a \<le> \<lceil>r\<rceil>" using assms(1) by linarith
    moreover have "trunc r = \<lceil>r\<rceil>" using False by (simp add: trunc_def)
    ultimately show ?thesis using assms(3) by linarith
  qed
  moreover have "trunc r \<le> 32767"
  proof (cases "0 \<le> r")
    case True
    have "\<lfloor>r\<rfloor> \<le> b" using assms(2) by linarith
    moreover have "trunc r = \<lfloor>r\<rfloor>" using True by (simp add: trunc_def)
    ultimately show ?thesis using assms(4) by linarith
  next
    case False
    then have "\<lceil>r\<rceil> \<le> 0" by linarith
    moreover have "trunc r = \<lceil>r\<rceil>" using False by (simp add: trunc_def)
    ultimately show ?thesis by linarith
  qed
  ultimately show ?thesis by (simp add: sint16_id)
qed

lemma in_range_Fin: "in_range x lo hi \<Longrightarrow> \<exists>r. x = Fin r \<and> lo \<le> r \<and> r \<le> hi"
  by (cases x) simp_all

lemma not_in_range: "\<not> in_range x lo hi \<Longrightarrow> isnan x \<or> lt_c x lo \<or> gt_c x hi"
  by (cases x) auto

lemma dateTime_invalid:
  assumes "\<not> (in_range month 1 12 \<and> in_range day 1 31 \<and> in_range hour 0 99 \<and>
              in_range minute 0 99 \<and> in_range second 0 99)"
  shows "dateTime year month day hour minute second lut = minDateTime lut"
proof -
  have c: "isnan year \<or> isnan month \<or> isnan day \<or>
         isnan hour \<or> isnan minute \<or> isnan second \<or>
         lt_c year (of_int (DATE_LUT_MIN_YEAR lut)) \<or> lt_c month 1 \<or> gt_c month 12 \<or>
         lt_c day 1 \<or> gt_c day 31 \<or>
         lt_c hour 0 \<or> gt_c hour 99 \<or> lt_c minute 0 \<or> gt_c minute 99 \<or>
         lt_c second 0 \<or> gt_c second 99"
    using assms not_in_range by blast
  show ?thesis
    unfolding dateTime_def using c by (rule if_P)
qed

lemma dateTime_valid_clock:
  assumes "1 \<le> m" "m \<le> 12" "1 \<le> d" "d \<le> 31" "0 \<le> h" "h \<le> 99"
    "0 \<le> mi" "mi \<le> 99" "0 \<le> s" "s \<le> 99"
  shows "dateTime year (Fin m) (Fin d) (Fin h) (Fin mi) (Fin s) lut =
     (if isnan year \<or> lt_c year (of_int (DATE_LUT_MIN_YEAR lut)) then minDateTime lut
      else if gt_c year (of_int (DATE_LUT_MAX_YEAR lut)) then maxDateTime lut
      else makeDateTime lut (static_cast_Int16 year) (trunc m) (trunc d) (trunc h) (trunc mi)
             (trunc s))"
proof -
  have "static_cast_UInt8 (Fin m) = trunc m" "static_cast_UInt8 (Fin d) = trunc d"
    "static_cast_UInt8 (Fin h) = trunc h" "static_cast_UInt8 (Fin mi) = trunc mi"
    "static_cast_UInt8 (Fin s) = trunc s"
    using assms by (simp_all add: static_cast_UInt8_trunc del: static_cast_UInt8.simps)
  then show ?thesis
    using assms by (simp add: dateTime_def del: static_cast_UInt8.simps static_cast_Int16.simps)
qed

lemma dateTime_cases:
  assumes "- 32768 \<le> DATE_LUT_MIN_YEAR lut" "DATE_LUT_MAX_YEAR lut \<le> 32767"
  shows "dateTime year month day hour minute second lut =
     (if in_range month 1 12 \<and> in_range day 1 31 \<and> in_range hour 0 99 \<and>
         in_range minute 0 99 \<and> in_range second 0 99
      then
        (case year of
           Fin y \<Rightarrow>
             if y < of_int (DATE_LUT_MIN_YEAR lut) then minDateTime lut
             else if of_int (DATE_LUT_MAX_YEAR lut) < y then maxDateTime lut
             else makeDateTime lut (trunc y) (truncated month) (truncated day)
                    (truncated hour) (truncated minute) (truncated second)
         | PInf \<Rightarrow> maxDateTime lut
         | _ \<Rightarrow> minDateTime lut)
      else minDateTime lut)"
proof (cases "in_range month 1 12 \<and> in_range day 1 31 \<and> in_range hour 0 99 \<and>
         in_range minute 0 99 \<and> in_range second 0 99")
  case False
  show ?thesis
    unfolding if_not_P [OF False] by (rule dateTime_invalid [OF False])
next
  case True
  then obtain m d h mi s where f: "month = Fin m" "day = Fin d" "hour = Fin h"
      "minute = Fin mi" "second = Fin s"
    and r: "1 \<le> m" "m \<le> 12" "1 \<le> d" "d \<le> 31" "0 \<le> h" "h \<le> 99"
      "0 \<le> mi" "mi \<le> 99" "0 \<le> s" "s \<le> 99"
    by (metis in_range_Fin)
  note dt = dateTime_valid_clock [OF r, of year lut]
  show ?thesis
  proof (cases year)
    case (Fin y)
    show ?thesis
    proof (cases "of_int (DATE_LUT_MIN_YEAR lut) \<le> y \<and> y \<le> of_int (DATE_LUT_MAX_YEAR lut)")
      case True
      then have "static_cast_Int16 (Fin y) = trunc y"
        using assms static_cast_Int16_trunc_signed by blast
      then show ?thesis
        using True r dt by (simp add: f Fin del: static_cast_Int16.simps)
    next
      case False
      then show ?thesis
        using r dt by (auto simp add: f Fin simp del: static_cast_Int16.simps)
    qed
  qed (use r dt in \<open>simp_all add: f\<close>)
qed

lemma clamp_UInt32_stored:
  "uint (word_of_int (clamp_UInt32 v) :: 32 word) = max 0 (min 4294967295 v)"
proof -
  have "0 \<le> clamp_UInt32 v" "clamp_UInt32 v \<le> 4294967295"
    by (simp_all add: clamp_UInt32_def)
  then have "uint (word_of_int (clamp_UInt32 v) :: 32 word) = clamp_UInt32 v"
    by (rule uint32_id)
  then show ?thesis by (simp add: clamp_UInt32_def)
qed

text \<open>
  Claim C2. A row of \<open>makeDateTime\<close> with a not-a-number field, a year below the global
  minimum year, a month outside 1..12, a day outside 1..31 or an hour, minute or second
  outside 0..99 has the seconds value of the calendar service for
  \<open>(minYear - 1, 1, 1, 0, 0, 0)\<close> as its result before saturation; otherwise a year above
  the global maximum year gives the value for \<open>(maxYear + 1, 1, 1, 23, 59, 59)\<close>; otherwise
  the result is \<open>makeDateTime\<close> of the calendar service on the six fields (converted to
  integers by the casts of the source). The stored value is that result saturated into
  \<open>[0, 0xFFFFFFFF]\<close>. The global year bounds are those of a 16-bit year.
\<close>

theorem makeDateTime_row_result:
  assumes "- 32768 \<le> DATE_LUT_MIN_YEAR lut" "DATE_LUT_MAX_YEAR lut \<le> 32767"
  shows "makeDateTime_row lut year month day hour minute second =
     max 0 (min 4294967295
       (if in_range month 1 12 \<and> in_range day 1 31 \<and> in_range hour 0 99 \<and>
           in_range minute 0 99 \<and> in_range second 0 99
        then
          (case year of
             Fin y \<Rightarrow>
               if y < of_int (DATE_LUT_MIN_YEAR lut)
                 then makeDateTime lut (DATE_LUT_MIN_YEAR lut - 1) 1 1 0 0 0
               else if of_int (DATE_LUT_MAX_YEAR lut) < y
                 then makeDateTime lut (DATE_LUT_MAX_YEAR lut + 1) 1 1 23 59 59
               else makeDateTime lut (trunc y) (truncated month) (truncated day)
                      (truncated hour) (truncated minute) (truncated second)
           | PInf \<Rightarrow> makeDateTime lut (DATE_LUT_MAX_YEAR lut + 1) 1 1 23 59 59
           | _ \<Rightarrow> makeDateTime lut (DATE_LUT_MIN_YEAR lut - 1) 1 1 0 0 0)
        else makeDateTime lut (DATE_LUT_MIN_YEAR lut - 1) 1 1 0 0 0))"
  unfolding makeDateTime_row_def clamp_UInt32_stored dateTime_cases [OF assms]
    minDateTime_def maxDateTime_def ..

theorem makeDateTime_row_result_witness:
  "- 32768 \<le> DATE_LUT_MIN_YEAR utc_lut \<and> DATE_LUT_MAX_YEAR utc_lut \<le> 32767 \<and>
   makeDateTime_row utc_lut (Fin 2023) (Fin 2) (Fin 28) (Fin 17) (Fin 12) (Fin 33) = 1677604353 \<and>
   makeDateTime_row utc_lut (Fin 2023) NaN (Fin 28) (Fin 17) (Fin 12) (Fin 33) = 0 \<and>
   makeDateTime_row utc_lut (Fin 1969) (Fin 12) (Fin 31) (Fin 23) (Fin 59) (Fin 59) = 0 \<and>
   makeDateTime_row utc_lut (Fin 2107) (Fin 1) (Fin 1) (Fin 0) (Fin 0) (Fin 0) = 4294967295 \<and>
   makeDateTime_row utc_lut PInf (Fin 1) (Fin 1) (Fin 0) (Fin 0) (Fin 0) = 4294967295"
proof -
  have b: "- 32768 \<le> DATE_LUT_MIN_YEAR utc_lut" "DATE_LUT_MAX_YEAR utc_lut \<le> 32767"
    by (simp_all add: utc_lut_sel)
  show ?thesis
    using b makeDateTime_row_result [OF b, of "Fin 2023" "Fin 2" "Fin 28" "Fin 17" "Fin 12" "Fin 33"]
      makeDateTime_row_result [OF b, of "Fin 2023" NaN "Fin 28" "Fin 17" "Fin 12" "Fin 33"]
      makeDateTime_row_result [OF b, of "Fin 1969" "Fin 12" "Fin 31" "Fin 23" "Fin 59" "Fin 59"]
      makeDateTime_row_result [OF b, of "Fin 2107" "Fin 1" "Fin 1" "Fin 0" "Fin 0" "Fin 0"]
      makeDateTime_row_result [OF b, of PInf "Fin 1" "Fin 1" "Fin 0" "Fin 0" "Fin 0"]
    by (simp add: utc_simps)
qed

lemma trunc_between:
  assumes "of_int a \<le> r" "r \<le> of_int b"
  shows "a \<le> trunc r \<and> trunc r \<le> b"
proof (cases "0 \<le> r")
  case True
  then have "trunc r = \<lfloor>r\<rfloor>" by (simp add: trunc_def)
  then show ?thesis using assms by linarith
next
  case False
  then have "trunc r = \<lceil>r\<rceil>" by (simp add: trunc_def)
  then show ?thesis using assms by linarith
qed

lemma trunc_between_real:
  assumes "of_int a \<le> r" "r \<le> of_int b"
  shows "of_int a \<le> real_of_int (trunc r) \<and> real_of_int (trunc r) \<le> of_int b"
  using trunc_between [OF assms] by simp

lemma makeDate_year_month_day_trunc:
  assumes t: "0 \<le> MIN_YEAR t" "MAX_YEAR t \<le> 32767"
    and r: "of_int (MIN_YEAR t) \<le> y" "y \<le> of_int (MAX_YEAR t)"
      "1 \<le> m" "m \<le> 12" "1 \<le> d" "d \<le> 31"
  shows "makeDate_year_month_day t lut (Fin y) (Fin m) (Fin d) =
         makeDate_year_month_day t lut (Fin (of_int (trunc y))) (Fin (of_int (trunc m)))
           (Fin (of_int (trunc d)))"
proof -
  have "of_int (MIN_YEAR t) \<le> real_of_int (trunc y) \<and> real_of_int (trunc y) \<le> of_int (MAX_YEAR t)"
    using r by (intro trunc_between_real) simp_all
  moreover have "1 \<le> real_of_int (trunc m) \<and> real_of_int (trunc m) \<le> 12"
    using trunc_between_real [of 1 m 12] r by simp
  moreover have "1 \<le> real_of_int (trunc d) \<and> real_of_int (trunc d) \<le> 31"
    using trunc_between_real [of 1 d 31] r by simp
  ultimately show ?thesis
    using r unfolding makeDate_year_month_day_Fin [OF t] by (simp add: trunc_of_int)
qed

lemma makeDate_year_dayofyear_trunc:
  assumes t: "0 \<le> MIN_YEAR t" "MAX_YEAR t \<le> 32767"
    and r: "of_int (MIN_YEAR t) \<le> y" "y \<le> of_int (MAX_YEAR t)" "1 \<le> n" "n \<le> 365"
  shows "makeDate_year_dayofyear t lut (Fin y) (Fin n) =
         makeDate_year_dayofyear t lut (Fin (of_int (trunc y))) (Fin (of_int (trunc n)))"
proof -
  have "of_int (MIN_YEAR t) \<le> real_of_int (trunc y) \<and> real_of_int (trunc y) \<le> of_int (MAX_YEAR t)"
    using r by (intro trunc_between_real) simp_all
  moreover have "1 \<le> real_of_int (trunc n) \<and> real_of_int (trunc n) \<le> 365"
    using trunc_between_real [of 1 n 365] r by simp
  ultimately show ?thesis
    using r unfolding makeDate_year_dayofyear_Fin [OF t] by (simp add: trunc_of_int)
qed

lemma dateTime_valid:
  assumes l: "- 32768 \<le> DATE_LUT_MIN_YEAR lut" "DATE_LUT_MAX_YEAR lut \<le> 32767"
    and r: "of_int (DATE_LUT_MIN_YEAR lut) \<le> y" "y \<le> of_int (DATE_LUT_MAX_YEAR lut)"
      "1 \<le> m" "m \<le> 12" "1 \<le> d" "d \<le> 31" "0 \<le> h" "h \<le> 99"
      "0 \<le> mi" "mi \<le> 99" "0 \<le> s" "s \<le> 99"
  shows "dateTime (Fin y) (Fin m) (Fin d) (Fin h) (Fin mi) (Fin s) lut =
         makeDateTime lut (trunc y) (trunc m) (trunc d) (trunc h) (trunc mi) (trunc s)"
  using r unfolding dateTime_cases [OF l] by simp

lemma dateTime_trunc:
  assumes l: "- 32768 \<le> DATE_LUT_MIN_YEAR lut" "DATE_LUT_MAX_YEAR lut \<le> 32767"
    and r: "of_int (DATE_LUT_MIN_YEAR lut) \<le> y" "y \<le> of_int (DATE_LUT_MAX_YEAR lut)"
      "1 \<le> m" "m \<le> 12" "1 \<le> d" "d \<le> 31" "0 \<le> h" "h \<le> 99"
      "0 \<le> mi" "mi \<le> 99" "0 \<le> s" "s \<le> 99"
  shows "dateTime (Fin y) (Fin m) (Fin d) (Fin h) (Fin mi) (Fin s) lut =
         dateTime (Fin (of_int (trunc y))) (Fin (of_int (trunc m))) (Fin (of_int (trunc d)))
           (Fin (of_int (trunc h))) (Fin (of_int (trunc mi))) (Fin (of_int (trunc s))) lut"
proof -
  have y: "of_int (DATE_LUT_MIN_YEAR lut) \<le> real_of_int (trunc y)"
      "real_of_int (trunc y) \<le> of_int (DATE_LUT_MAX_YEAR lut)"
    using trunc_between_real [OF r(1,2)] by simp_all
  have m: "1 \<le> real_of_int (trunc m)" "real_of_int (trunc m) \<le> 12"
    using trunc_between_real [of 1 m 12] r by simp_all
  have d: "1 \<le> real_of_int (trunc d)" "real_of_int (trunc d) \<le> 31"
    using trunc_between_real [of 1 d 31] r by simp_all
  have h: "0 \<le> real_of_int (trunc h)" "real_of_int (trunc h) \<le> 99"
    using trunc_between_real [of 0 h 99] r by simp_all
  have mi: "0 \<le> real_of_int (trunc mi)" "real_of_int (trunc mi) \<le> 99"
    using trunc_between_real [of 0 mi 99] r by simp_all
  have s: "0 \<le> real_of_int (trunc s)" "real_of_int (trunc s) \<le> 99"
    using trunc_between_real [of 0 s 99] r by simp_all
  show ?thesis
    unfolding dateTime_valid [OF l r] dateTime_valid [OF l y m d h mi s] trunc_of_int ..
qed

lemma makeDateTime64_row_cong:
  assumes "dateTime year month day hour minute second lut =
           dateTime year' month' day' hour' minute' second' lut"
  shows "makeDateTime64_row lut p year month day hour minute second f =
         makeDateTime64_row lut p year' month' day' hour' minute' second' f"
  using assms by (simp add: makeDateTime64_row_def makeDateTime64_components_def)

section \<open>The fraction of makeDateTime64\<close>

lemma static_cast_Int64_trunc:
  assumes "0 \<le> r" "r \<le> 999999999"
  shows "static_cast_Int64 (Fin r) = trunc r"
proof -
  have "0 \<le> trunc r \<and> trunc r \<le> 999999999"
    using trunc_between [of 0 r 999999999] assms by simp
  then show ?thesis by (simp add: sint64_id)
qed

lemma max_fraction_bound: "p \<le> 9 \<Longrightarrow> (10::real) ^ p - 1 \<le> 999999999"
proof -
  assume "p \<le> 9"
  then have "(10::real) ^ p \<le> 10 ^ 9" by (intro power_increasing) simp_all
  then show ?thesis by simp
qed

lemma trunc_max_fraction: "trunc (10 ^ p - 1) = 10 ^ p - 1"
  using trunc_of_int [of "10 ^ p - 1"] by simp

lemma smod_id: "0 \<le> fr \<Longrightarrow> fr < m \<Longrightarrow> fr smod m = fr" for fr m :: int
  by (cases "fr = 0") (simp_all add: signed_modulo_int_def)

lemma smod_id_neg: "fr \<le> 0 \<Longrightarrow> - m < fr \<Longrightarrow> fr smod m = fr" for fr m :: int
  by (cases "fr = 0") (simp_all add: signed_modulo_int_def)


lemma decimalFromComponents_in_scale:
  assumes "0 \<le> fr" "fr < 10 ^ p"
  shows "decimalFromComponents s fr p = s * 10 ^ p + (if s < 0 then - fr else fr)"
  using smod_id [OF assms] by (simp add: decimalFromComponents_def)


lemma trunc_in_scale:
  assumes "0 \<le> r" "r \<le> 10 ^ p - 1"
  shows "0 \<le> trunc r \<and> trunc r < 10 ^ p"
proof -
  have "0 \<le> trunc r \<and> trunc r \<le> 10 ^ p - 1"
    using trunc_between [of 0 r "10 ^ p - 1"] assms by simp
  then show ?thesis by simp
qed



lemma makeDateTime64_components_other:
  assumes "dateTime year month day hour minute second lut \<noteq> minDateTime lut"
    "dateTime year month day hour minute second lut \<noteq> maxDateTime lut"
    "p \<le> 9"
  shows "makeDateTime64_components lut p year month day hour minute second fraction_data =
     (case fraction_data of
        None \<Rightarrow> (dateTime year month day hour minute second lut, 0)
      | Some NaN \<Rightarrow> (minDateTime lut, 0)
      | Some NInf \<Rightarrow> (dateTime year month day hour minute second lut, 0)
      | Some PInf \<Rightarrow> (dateTime year month day hour minute second lut, 10 ^ p - 1)
      | Some (Fin r) \<Rightarrow>
          if r < 0 then (dateTime year month day hour minute second lut, 0)
          else if 10 ^ p - 1 < r
            then (dateTime year month day hour minute second lut, 10 ^ p - 1)
          else (dateTime year month day hour minute second lut, trunc r))"
proof -
  have z: "static_cast_Int64 (Fin 0) = 0" by (simp add: trunc_def)
  have o: "\<not> (10::real) ^ p < 1" by (simp add: not_less)
  have m: "static_cast_Int64 (Fin (10 ^ p - 1)) = 10 ^ p - 1"
    using static_cast_Int64_trunc [of "10 ^ p - 1"] max_fraction_bound [OF assms(3)]
    by (simp add: trunc_max_fraction)
  show ?thesis
  proof (cases fraction_data)
    case None
    then show ?thesis
      using assms z o
      by (simp add: makeDateTime64_components_def Let_def del: static_cast_Int64.simps)
  next
    case (Some fr)
    show ?thesis
    proof (cases fr)
      case (Fin r)
      have "0 \<le> r \<Longrightarrow> r \<le> 10 ^ p - 1 \<Longrightarrow> static_cast_Int64 (Fin r) = trunc r"
        using static_cast_Int64_trunc [of r] max_fraction_bound [OF assms(3)] by linarith
      then show ?thesis
        using assms z m o Some Fin
        by (simp add: makeDateTime64_components_def Let_def del: static_cast_Int64.simps)
    qed (use assms z m o Some in
        \<open>simp_all add: makeDateTime64_components_def Let_def del: static_cast_Int64.simps\<close>)
  qed
qed

lemma utc_sentinels:
  "minDateTime utc_lut = - 2208988800" "maxDateTime utc_lut = 10413791999"
  by (simp_all add: minDateTime_def maxDateTime_def utc_simps)








section \<open>Fields that are not integral\<close>

lemma makeDateTime64_components_cong:
  assumes "dateTime year month day hour minute second lut =
           dateTime year' month' day' hour' minute' second' lut"
  shows "makeDateTime64_components lut p year month day hour minute second f =
         makeDateTime64_components lut p year' month' day' hour' minute' second' f"
  using assms by (simp add: makeDateTime64_components_def)

lemma makeDateTime64_row_in_scale:
  assumes "dateTime year month day hour minute second lut \<noteq> minDateTime lut"
    "dateTime year month day hour minute second lut \<noteq> maxDateTime lut"
    "p \<le> 9" "0 \<le> r" "r \<le> 10 ^ p - 1"
  shows "makeDateTime64_row lut p year month day hour minute second (Some (Fin r)) =
     dateTime year month day hour minute second lut * 10 ^ p +
       (if dateTime year month day hour minute second lut < 0 then - trunc r else trunc r)"
proof -
  have "makeDateTime64_components lut p year month day hour minute second (Some (Fin r)) =
      (dateTime year month day hour minute second lut, trunc r)"
    unfolding makeDateTime64_components_other [OF assms(1-3)] using assms(4,5) by simp
  then have "makeDateTime64_row lut p year month day hour minute second (Some (Fin r)) =
      decimalFromComponents (dateTime year month day hour minute second lut) (trunc r) p"
    by (simp add: makeDateTime64_row_def)
  then show ?thesis
    using trunc_in_scale [OF assms(4,5)] decimalFromComponents_in_scale by simp
qed

text \<open>
  Claim C9. In every field-based constructor a field that lies in its legal range but is
  not integral reaches the calendar service truncated toward zero. With fields in range,
  a row of \<open>makeDate\<close> or \<open>makeDate32\<close> is the day-number the calendar service gives for
  the truncated year, month and day (0 beyond the last day of the type); the day-of-year
  variant is the day-number of January 1st of the truncated year plus the truncated
  day of the year minus 1; the seconds of \<open>makeDateTime\<close> and \<open>makeDateTime64\<close> are what
  the calendar service gives for the six truncated fields, and the fraction of
  \<open>makeDateTime64\<close> is truncated as well. So each row gives what it gives on the truncated
  fields: \<open>makeDate(2023, 2.9, 28)\<close> is \<open>makeDate(2023, 2, 28)\<close> and a second of 59.9 is
  a second of 59.
\<close>

theorem fields_truncated_toward_zero:
  assumes "- 32768 \<le> DATE_LUT_MIN_YEAR lut" "DATE_LUT_MAX_YEAR lut \<le> 32767"
  shows
   "(1970 \<le> y \<and> y \<le> 2149 \<and> 1 \<le> m \<and> m \<le> 12 \<and> 1 \<le> d \<and> d \<le> 31 \<longrightarrow>
       makeDate_year_month_day DateTraits lut (Fin y) (Fin m) (Fin d) =
         (if makeDayNum lut (trunc y) (trunc m) (trunc d) \<le> makeDayNum lut 2149 6 6
          then makeDayNum lut (trunc y) (trunc m) (trunc d) else 0) \<and>
       makeDate_year_month_day DateTraits lut (Fin y) (Fin m) (Fin d) =
       makeDate_year_month_day DateTraits lut (Fin (of_int (trunc y))) (Fin (of_int (trunc m)))
         (Fin (of_int (trunc d)))) \<and>
    (1900 \<le> y \<and> y \<le> 2299 \<and> 1 \<le> m \<and> m \<le> 12 \<and> 1 \<le> d \<and> d \<le> 31 \<longrightarrow>
       makeDate_year_month_day Date32Traits lut (Fin y) (Fin m) (Fin d) =
         (if makeDayNum lut (trunc y) (trunc m) (trunc d) \<le> makeDayNum lut 2299 12 31
          then makeDayNum lut (trunc y) (trunc m) (trunc d) else 0) \<and>
       makeDate_year_month_day Date32Traits lut (Fin y) (Fin m) (Fin d) =
       makeDate_year_month_day Date32Traits lut (Fin (of_int (trunc y))) (Fin (of_int (trunc m)))
         (Fin (of_int (trunc d)))) \<and>
    (1970 \<le> y \<and> y \<le> 2149 \<and> 1 \<le> n \<and> n \<le> 365 \<longrightarrow>
       makeDate_year_dayofyear DateTraits lut (Fin y) (Fin n) =
         (if makeDayNum lut (trunc y) 1 1 + trunc n - 1 \<le> makeDayNum lut 2149 6 6
          then makeDayNum lut (trunc y) 1 1 + trunc n - 1 else 0) \<and>
       makeDate_year_dayofyear DateTraits lut (Fin y) (Fin n) =
       makeDate_year_dayofyear DateTraits lut (Fin (of_int (trunc y))) (Fin (of_int (trunc n)))) \<and>
    (1900 \<le> y \<and> y \<le> 2299 \<and> 1 \<le> n \<and> n \<le> 365 \<longrightarrow>
       makeDate_year_dayofyear Date32Traits lut (Fin y) (Fin n) =
         (if makeDayNum lut (trunc y) 1 1 + trunc n - 1 \<le> makeDayNum lut 2299 12 31
          then makeDayNum lut (trunc y) 1 1 + trunc n - 1 else 0) \<and>
       makeDate_year_dayofyear Date32Traits lut (Fin y) (Fin n) =
       makeDate_year_dayofyear Date32Traits lut (Fin (of_int (trunc y))) (Fin (of_int (trunc n)))) \<and>
    (of_int (DATE_LUT_MIN_YEAR lut) \<le> y \<and> y \<le> of_int (DATE_LUT_MAX_YEAR lut) \<and>
     1 \<le> m \<and> m \<le> 12 \<and> 1 \<le> d \<and> d \<le> 31 \<and>
     0 \<le> h \<and> h \<le> 99 \<and> 0 \<le> mi \<and> mi \<le> 99 \<and> 0 \<le> s \<and> s \<le> 99 \<longrightarrow>
       dateTime (Fin y) (Fin m) (Fin d) (Fin h) (Fin mi) (Fin s) lut =
         makeDateTime lut (trunc y) (trunc m) (trunc d) (trunc h) (trunc mi) (trunc s) \<and>
       makeDateTime_row lut (Fin y) (Fin m) (Fin d) (Fin h) (Fin mi) (Fin s) =
         max 0 (min 4294967295
           (makeDateTime lut (trunc y) (trunc m) (trunc d) (trunc h) (trunc mi) (trunc s))) \<and>
       makeDateTime_row lut (Fin y) (Fin m) (Fin d) (Fin h) (Fin mi) (Fin s) =
         makeDateTime_row lut (Fin (of_int (trunc y))) (Fin (of_int (trunc m)))
           (Fin (of_int (trunc d))) (Fin (of_int (trunc h))) (Fin (of_int (trunc mi)))
           (Fin (of_int (trunc s))) \<and>
       makeDateTime64_components lut p (Fin y) (Fin m) (Fin d) (Fin h) (Fin mi) (Fin s) f =
         makeDateTime64_components lut p (Fin (of_int (trunc y))) (Fin (of_int (trunc m)))
           (Fin (of_int (trunc d))) (Fin (of_int (trunc h))) (Fin (of_int (trunc mi)))
           (Fin (of_int (trunc s))) f \<and>
       makeDateTime64_row lut p (Fin y) (Fin m) (Fin d) (Fin h) (Fin mi) (Fin s) f =
         makeDateTime64_row lut p (Fin (of_int (trunc y))) (Fin (of_int (trunc m)))
           (Fin (of_int (trunc d))) (Fin (of_int (trunc h))) (Fin (of_int (trunc mi)))
           (Fin (of_int (trunc s))) f \<and>
       (makeDateTime lut (trunc y) (trunc m) (trunc d) (trunc h) (trunc mi) (trunc s)
            \<noteq> minDateTime lut \<and>
        makeDateTime lut (trunc y) (trunc m) (trunc d) (trunc h) (trunc mi) (trunc s)
            \<noteq> maxDateTime lut \<and>
        p \<le> 9 \<and> 0 \<le> r \<and> r \<le> 10 ^ p - 1 \<longrightarrow>
          makeDateTime64_row lut p (Fin y) (Fin m) (Fin d) (Fin h) (Fin mi) (Fin s)
              (Some (Fin r)) =
            makeDateTime lut (trunc y) (trunc m) (trunc d) (trunc h) (trunc mi) (trunc s)
                * 10 ^ p +
              (if makeDateTime lut (trunc y) (trunc m) (trunc d) (trunc h) (trunc mi) (trunc s)
                    < 0
               then - trunc r else trunc r)))"
proof (intro conjI impI)
  assume a: "1970 \<le> y \<and> y \<le> 2149 \<and> 1 \<le> m \<and> m \<le> 12 \<and> 1 \<le> d \<and> d \<le> 31"
  have t: "0 \<le> MIN_YEAR DateTraits" "MAX_YEAR DateTraits \<le> 32767"
    by (simp_all add: DateTraits_sel)
  show "makeDate_year_month_day DateTraits lut (Fin y) (Fin m) (Fin d) =
         (if makeDayNum lut (trunc y) (trunc m) (trunc d) \<le> makeDayNum lut 2149 6 6
          then makeDayNum lut (trunc y) (trunc m) (trunc d) else 0)"
    unfolding makeDate_year_month_day_Fin [OF t] DateTraits_sel of_int_numeral
    using a by simp
  show "makeDate_year_month_day DateTraits lut (Fin y) (Fin m) (Fin d) =
       makeDate_year_month_day DateTraits lut (Fin (of_int (trunc y))) (Fin (of_int (trunc m)))
         (Fin (of_int (trunc d)))"
    using a by (intro makeDate_year_month_day_trunc) (simp_all add: DateTraits_sel)
next
  assume a: "1900 \<le> y \<and> y \<le> 2299 \<and> 1 \<le> m \<and> m \<le> 12 \<and> 1 \<le> d \<and> d \<le> 31"
  have t: "0 \<le> MIN_YEAR Date32Traits" "MAX_YEAR Date32Traits \<le> 32767"
    by (simp_all add: Date32Traits_sel)
  show "makeDate_year_month_day Date32Traits lut (Fin y) (Fin m) (Fin d) =
         (if makeDayNum lut (trunc y) (trunc m) (trunc d) \<le> makeDayNum lut 2299 12 31
          then makeDayNum lut (trunc y) (trunc m) (trunc d) else 0)"
    unfolding makeDate_year_month_day_Fin [OF t] Date32Traits_sel of_int_numeral
    using a by simp
  show "makeDate_year_month_day Date32Traits lut (Fin y) (Fin m) (Fin d) =
       makeDate_year_month_day Date32Traits lut (Fin (of_int (trunc y))) (Fin (of_int (trunc m)))
         (Fin (of_int (trunc d)))"
    using a by (intro makeDate_year_month_day_trunc) (simp_all add: Date32Traits_sel)
next
  assume a: "1970 \<le> y \<and> y \<le> 2149 \<and> 1 \<le> n \<and> n \<le> 365"
  have t: "0 \<le> MIN_YEAR DateTraits" "MAX_YEAR DateTraits \<le> 32767"
    by (simp_all add: DateTraits_sel)
  show "makeDate_year_dayofyear DateTraits lut (Fin y) (Fin n) =
         (if makeDayNum lut (trunc y) 1 1 + trunc n - 1 \<le> makeDayNum lut 2149 6 6
          then makeDayNum lut (trunc y) 1 1 + trunc n - 1 else 0)"
    unfolding makeDate_year_dayofyear_Fin [OF t] DateTraits_sel of_int_numeral
    using a by simp
  show "makeDate_year_dayofyear DateTraits lut (Fin y) (Fin n) =
       makeDate_year_dayofyear DateTraits lut (Fin (of_int (trunc y))) (Fin (of_int (trunc n)))"
    using a by (intro makeDate_year_dayofyear_trunc) (simp_all add: DateTraits_sel)
next
  assume a: "1900 \<le> y \<and> y \<le> 2299 \<and> 1 \<le> n \<and> n \<le> 365"
  have t: "0 \<le> MIN_YEAR Date32Traits" "MAX_YEAR Date32Traits \<le> 32767"
    by (simp_all add: Date32Traits_sel)
  show "makeDate_year_dayofyear Date32Traits lut (Fin y) (Fin n) =
         (if makeDayNum lut (trunc y) 1 1 + trunc n - 1 \<le> makeDayNum lut 2299 12 31
          then makeDayNum lut (trunc y) 1 1 + trunc n - 1 else 0)"
    unfolding makeDate_year_dayofyear_Fin [OF t] Date32Traits_sel of_int_numeral
    using a by simp
  show "makeDate_year_dayofyear Date32Traits lut (Fin y) (Fin n) =
       makeDate_year_dayofyear Date32Traits lut (Fin (of_int (trunc y))) (Fin (of_int (trunc n)))"
    using a by (intro makeDate_year_dayofyear_trunc) (simp_all add: Date32Traits_sel)
next
  assume a: "of_int (DATE_LUT_MIN_YEAR lut) \<le> y \<and> y \<le> of_int (DATE_LUT_MAX_YEAR lut) \<and>
     1 \<le> m \<and> m \<le> 12 \<and> 1 \<le> d \<and> d \<le> 31 \<and>
     0 \<le> h \<and> h \<le> 99 \<and> 0 \<le> mi \<and> mi \<le> 99 \<and> 0 \<le> s \<and> s \<le> 99"
  then show v: "dateTime (Fin y) (Fin m) (Fin d) (Fin h) (Fin mi) (Fin s) lut =
         makeDateTime lut (trunc y) (trunc m) (trunc d) (trunc h) (trunc mi) (trunc s)"
    by (intro dateTime_valid assms) simp_all
  show "makeDateTime_row lut (Fin y) (Fin m) (Fin d) (Fin h) (Fin mi) (Fin s) =
         max 0 (min 4294967295
           (makeDateTime lut (trunc y) (trunc m) (trunc d) (trunc h) (trunc mi) (trunc s)))"
    unfolding makeDateTime_row_def clamp_UInt32_stored v ..
  have e: "dateTime (Fin y) (Fin m) (Fin d) (Fin h) (Fin mi) (Fin s) lut =
         dateTime (Fin (of_int (trunc y))) (Fin (of_int (trunc m))) (Fin (of_int (trunc d)))
           (Fin (of_int (trunc h))) (Fin (of_int (trunc mi))) (Fin (of_int (trunc s))) lut"
    using a by (intro dateTime_trunc assms) simp_all
  show "makeDateTime_row lut (Fin y) (Fin m) (Fin d) (Fin h) (Fin mi) (Fin s) =
         makeDateTime_row lut (Fin (of_int (trunc y))) (Fin (of_int (trunc m)))
           (Fin (of_int (trunc d))) (Fin (of_int (trunc h))) (Fin (of_int (trunc mi)))
           (Fin (of_int (trunc s)))"
    unfolding makeDateTime_row_def e ..
  show "makeDateTime64_components lut p (Fin y) (Fin m) (Fin d) (Fin h) (Fin mi) (Fin s) f =
         makeDateTime64_components lut p (Fin (of_int (trunc y))) (Fin (of_int (trunc m)))
           (Fin (of_int (trunc d))) (Fin (of_int (trunc h))) (Fin (of_int (trunc mi)))
           (Fin (of_int (trunc s))) f"
    using e by (rule makeDateTime64_components_cong)
  show "makeDateTime64_row lut p (Fin y) (Fin m) (Fin d) (Fin h) (Fin mi) (Fin s) f =
         makeDateTime64_row lut p (Fin (of_int (trunc y))) (Fin (of_int (trunc m)))
           (Fin (of_int (trunc d))) (Fin (of_int (trunc h))) (Fin (of_int (trunc mi)))
           (Fin (of_int (trunc s))) f"
    using e by (rule makeDateTime64_row_cong)
  assume b: "makeDateTime lut (trunc y) (trunc m) (trunc d) (trunc h) (trunc mi) (trunc s)
            \<noteq> minDateTime lut \<and>
        makeDateTime lut (trunc y) (trunc m) (trunc d) (trunc h) (trunc mi) (trunc s)
            \<noteq> maxDateTime lut \<and>
        p \<le> 9 \<and> 0 \<le> r \<and> r \<le> 10 ^ p - 1"
  have "makeDateTime64_row lut p (Fin y) (Fin m) (Fin d) (Fin h) (Fin mi) (Fin s)
              (Some (Fin r)) =
      dateTime (Fin y) (Fin m) (Fin d) (Fin h) (Fin mi) (Fin s) lut * 10 ^ p +
       (if dateTime (Fin y) (Fin m) (Fin d) (Fin h) (Fin mi) (Fin s) lut < 0
        then - trunc r else trunc r)"
    using b by (intro makeDateTime64_row_in_scale) (simp_all add: v)
  then show "makeDateTime64_row lut p (Fin y) (Fin m) (Fin d) (Fin h) (Fin mi) (Fin s)
              (Some (Fin r)) =
            makeDateTime lut (trunc y) (trunc m) (trunc d) (trunc h) (trunc mi) (trunc s)
                * 10 ^ p +
              (if makeDateTime lut (trunc y) (trunc m) (trunc d) (trunc h) (trunc mi) (trunc s)
                    < 0
               then - trunc r else trunc r)"
    unfolding v .
qed

theorem fields_truncated_toward_zero_witness:
  "- 32768 \<le> DATE_LUT_MIN_YEAR utc_lut \<and> DATE_LUT_MAX_YEAR utc_lut \<le> 32767 \<and>
   makeDate_year_month_day DateTraits utc_lut (Fin 2023) (Fin (29 / 10)) (Fin 28) = 19416 \<and>
   makeDate_year_month_day DateTraits utc_lut (Fin 2023) (Fin 2) (Fin 28) = 19416 \<and>
   makeDate_year_month_day DateTraits utc_lut (Fin 2023) (Fin 3) (Fin 28) = 19444 \<and>
   makeDate_year_month_day Date32Traits utc_lut (Fin (20237 / 10)) (Fin (19 / 2)) (Fin (119 / 10))
     = 19611 \<and>
   makeDate_year_dayofyear DateTraits utc_lut (Fin 2023) (Fin (429 / 10)) = 19399 \<and>
   makeDate_year_dayofyear Date32Traits utc_lut (Fin (4049 / 2)) (Fin (3649 / 10)) = 20086 \<and>
   makeDateTime_row utc_lut (Fin 2023) (Fin 2) (Fin 28) (Fin 17) (Fin 12) (Fin (599 / 10)) =
     1677604379 \<and>
   makeDateTime_row utc_lut (Fin 2023) (Fin 2) (Fin 28) (Fin 17) (Fin 12) (Fin 59) = 1677604379 \<and>
   makeDateTime64_row utc_lut 5 (Fin 2023) (Fin 5) (Fin 15) (Fin 10) (Fin 30) (Fin (459 / 10))
     (Some (Fin (7799 / 10))) = 168414664500779"
proof -
  have b: "- 32768 \<le> DATE_LUT_MIN_YEAR utc_lut" "DATE_LUT_MAX_YEAR utc_lut \<le> 32767"
    by (simp_all add: utc_lut_sel)
  have t: "trunc (29 / 10) = 2" "trunc (599 / 10) = 59" "trunc 2023 = 2023" "trunc 28 = 28"
    "trunc 2 = 2" "trunc 17 = 17" "trunc 12 = 12" "trunc (20237 / 10) = 2023"
    "trunc (19 / 2) = 9" "trunc (119 / 10) = 11" "trunc (429 / 10) = 42"
    "trunc (4049 / 2) = 2024" "trunc (3649 / 10) = 364" "trunc 5 = 5" "trunc 15 = 15"
    "trunc 10 = 10" "trunc 30 = 30" "trunc (459 / 10) = 45" "trunc (7799 / 10) = 779"
    by (simp_all add: trunc_def)
  have v: "makeDate_year_month_day DateTraits utc_lut (Fin 2023) (Fin 2) (Fin 28) = 19416"
    "makeDate_year_month_day DateTraits utc_lut (Fin 2023) (Fin 3) (Fin 28) = 19444"
    by (simp_all add: makeDate_year_month_day_def DateTraits_sel utc_simps)
  have w: "makeDateTime_row utc_lut (Fin 2023) (Fin 2) (Fin 28) (Fin 17) (Fin 12) (Fin 59)
      = 1677604379"
    by (simp add: makeDateTime_row_def dateTime_def clamp_UInt32_def utc_simps)
  have e1: "makeDate_year_month_day DateTraits utc_lut (Fin 2023) (Fin (29 / 10)) (Fin 28) = 19416"
    using fields_truncated_toward_zero [OF b, of 2023 "29 / 10" 28 1 0 0 0 0 None 0,
        THEN conjunct1]
    by (simp add: t utc_lut_sel utc_days)
  have e2: "makeDate_year_month_day Date32Traits utc_lut (Fin (20237 / 10)) (Fin (19 / 2))
      (Fin (119 / 10)) = 19611"
    using fields_truncated_toward_zero [OF b, of "20237 / 10" "19 / 2" "119 / 10" 1 0 0 0 0 None 0,
        THEN conjunct2, THEN conjunct1]
    by (simp add: t utc_lut_sel utc_days)
  have e3: "makeDate_year_dayofyear DateTraits utc_lut (Fin 2023) (Fin (429 / 10)) = 19399"
    using fields_truncated_toward_zero [OF b, of 2023 1 1 "429 / 10" 0 0 0 0 None 0,
        THEN conjunct2, THEN conjunct2, THEN conjunct1]
    by (simp add: t utc_lut_sel utc_days)
  have e4: "makeDate_year_dayofyear Date32Traits utc_lut (Fin (4049 / 2)) (Fin (3649 / 10)) = 20086"
    using fields_truncated_toward_zero [OF b, of "4049 / 2" 1 1 "3649 / 10" 0 0 0 0 None 0,
        THEN conjunct2, THEN conjunct2, THEN conjunct2, THEN conjunct1]
    by (simp add: t utc_lut_sel utc_days)
  have e5: "makeDateTime_row utc_lut (Fin 2023) (Fin 2) (Fin 28) (Fin 17) (Fin 12) (Fin (599 / 10))
      = 1677604379"
    using fields_truncated_toward_zero [OF b, of 2023 2 28 1 17 12 "599 / 10" 0 None 0,
        THEN conjunct2, THEN conjunct2, THEN conjunct2, THEN conjunct2]
    by (simp add: t utc_lut_sel utc_days)
  have e6: "makeDateTime64_row utc_lut 5 (Fin 2023) (Fin 5) (Fin 15) (Fin 10) (Fin 30)
      (Fin (459 / 10)) (Some (Fin (7799 / 10))) = 168414664500779"
    using fields_truncated_toward_zero [OF b, of 2023 5 15 1 10 30 "459 / 10" 5 None "7799 / 10",
        THEN conjunct2, THEN conjunct2, THEN conjunct2, THEN conjunct2]
    by (simp add: t utc_lut_sel utc_days utc_sentinels)
  show ?thesis
    using b v w e1 e2 e3 e4 e5 e6 by (intro conjI)
qed

section \<open>Rounding to the nearest double\<close>

lemma two_powi_mono: "a \<le> b \<Longrightarrow> (2::real) powi a \<le> 2 powi b"
  by (rule power_int_increasing) simp_all

lemma two_powi_strict_mono: "a < b \<Longrightarrow> (2::real) powi a < 2 powi b"
  by (rule power_int_strict_increasing) simp_all

lemma two_powi_less_cancel: "(2::real) powi a < 2 powi b \<Longrightarrow> a < b"
  using two_powi_mono [of b a] by (cases "a < b") simp_all

lemma two_powi_diff: "(2::real) powi (a - b) = 2 powi a / 2 powi b"
  by (rule power_int_diff) simp

lemma two_powi_of_nat: "0 \<le> k \<Longrightarrow> (2::real) powi k = of_int (2 ^ nat k)"
  by (simp add: power_int_nonneg_exp)

lemma two_powi_multiple:
  assumes "e' \<le> e"
  shows "of_int j * (2::real) powi e = of_int (j * 2 ^ nat (e - e')) * 2 powi e'"
proof -
  have "(2::real) powi e = 2 powi (e - e') * 2 powi e'"
    using power_int_add [of "2::real" "e - e'" e'] by simp
  also have "(2::real) powi (e - e') = of_int (2 ^ nat (e - e'))"
    using assms by (intro two_powi_of_nat) simp
  finally show ?thesis by simp
qed

lemma bitlen_pos: "0 < n \<Longrightarrow> 1 \<le> bitlen n"
  using bitlen_eq_zero_iff [of n] bitlen_nonneg [of n] by linarith

lemma ilog2_bounds:
  assumes "0 < a"
  shows "2 powi ilog2 a \<le> a \<and> a < 2 powi (ilog2 a + 1)"
proof (cases "1 \<le> a")
  case True
  define n where "n = \<lfloor>a\<rfloor>"
  have n: "0 < n" "of_int n \<le> a" "a < of_int n + 1"
    using True by (simp_all add: n_def)
  have i: "ilog2 a = bitlen n - 1"
    using True by (simp add: ilog2_def n_def)
  have b: "2 ^ nat (bitlen n - 1) \<le> n" "n < 2 ^ nat (bitlen n)"
    using bitlen_bounds [OF n(1)] by simp_all
  have p: "0 \<le> bitlen n - 1" using bitlen_pos [OF n(1)] by simp
  have "(2::real) powi (bitlen n - 1) = of_int (2 ^ nat (bitlen n - 1))"
    using p by (rule two_powi_of_nat)
  also have "\<dots> \<le> of_int n" using b(1) by (simp only: of_int_le_iff)
  finally have lo: "2 powi ilog2 a \<le> a" using n(2) i by simp
  have "n + 1 \<le> 2 ^ nat (bitlen n)" using b(2) by simp
  then have "real_of_int (n + 1) \<le> of_int (2 ^ nat (bitlen n))" by (simp only: of_int_le_iff)
  moreover have "(2::real) powi (bitlen n) = of_int (2 ^ nat (bitlen n))"
    using bitlen_nonneg by (rule two_powi_of_nat)
  ultimately have "a < 2 powi (bitlen n)" using n(3) by simp
  then have hi: "a < 2 powi (ilog2 a + 1)" using i by simp
  show ?thesis using lo hi by simp
next
  case False
  define m where "m = \<lceil>1 / a\<rceil> - 1"
  have "1 < 1 / a" using False assms by simp
  then have c: "2 \<le> \<lceil>1 / a\<rceil>" by linarith
  have m: "0 < m" "of_int m < 1 / a" "1 / a \<le> of_int m + 1"
    using c ceiling_correct [of "1 / a"] by (simp_all add: m_def)
  have i: "ilog2 a = - bitlen m"
    using False by (simp add: ilog2_def m_def)
  have b: "2 ^ nat (bitlen m - 1) \<le> m" "m < 2 ^ nat (bitlen m)"
    using bitlen_bounds [OF m(1)] by simp_all
  have p: "0 \<le> bitlen m - 1" using bitlen_pos [OF m(1)] by simp
  have e1: "(2::real) powi (bitlen m) = of_int (2 ^ nat (bitlen m))"
    using bitlen_nonneg by (rule two_powi_of_nat)
  have e2: "(2::real) powi (bitlen m - 1) = of_int (2 ^ nat (bitlen m - 1))"
    using p by (rule two_powi_of_nat)
  have "m + 1 \<le> 2 ^ nat (bitlen m)" using b(2) by simp
  then have "real_of_int (m + 1) \<le> of_int (2 ^ nat (bitlen m))" by (simp only: of_int_le_iff)
  then have "1 / a \<le> 2 powi (bitlen m)" using m(3) e1 by simp
  then have "1 \<le> 2 powi (bitlen m) * a" using assms by (simp add: field_simps)
  then have "1 / 2 powi (bitlen m) \<le> a" by (simp add: field_simps)
  then have lo: "2 powi ilog2 a \<le> a" unfolding i by (simp add: power_int_minus_divide)
  have "real_of_int (2 ^ nat (bitlen m - 1)) \<le> of_int m" using b(1) by (simp only: of_int_le_iff)
  then have "2 powi (bitlen m - 1) < 1 / a" unfolding e2 using m(2) by linarith
  then have "a * 2 powi (bitlen m - 1) < 1" using assms by (simp add: field_simps)
  then have "a < 1 / 2 powi (bitlen m - 1)" by (simp add: field_simps)
  moreover have "ilog2 a + 1 = - (bitlen m - 1)" using i by simp
  ultimately have hi: "a < 2 powi (ilog2 a + 1)" by (simp only: power_int_minus_divide)
  show ?thesis using lo hi by simp
qed


lemma ilog2_less:
  assumes "0 < a" "a < 2 powi (k + 1)"
  shows "ilog2 a \<le> k"
proof -
  have "(2::real) powi ilog2 a < 2 powi (k + 1)"
    using ilog2_bounds [OF assms(1)] assms(2) by linarith
  then have "ilog2 a < k + 1" by (rule two_powi_less_cancel)
  then show ?thesis by simp
qed

lemma quantum_exp_upper:
  assumes "y \<noteq> 0" "\<bar>y\<bar> < 2 powi (k + 1)" "- 1022 \<le> k"
  shows "quantum_exp y \<le> k - 52"
  using ilog2_less [of "\<bar>y\<bar>" k] assms by (simp add: quantum_exp_def)


lemma quantum_exp_zero: "quantum_exp 0 = - 52"
  by (simp add: quantum_exp_def ilog2_def bitlen_alt_def)

lemma round_even_near: "\<bar>of_int (round_even y) - y\<bar> \<le> 1 / 2"
  unfolding round_even_def Let_def by (simp; linarith)

lemma round_even_of_int: "round_even (of_int k) = k"
  by (simp add: round_even_def)

lemma round_even_le:
  assumes "y \<le> of_int j"
  shows "round_even y \<le> j"
proof (cases "\<lfloor>y\<rfloor> = j")
  case True
  then have "y = of_int j" using assms by linarith
  then show ?thesis by (simp add: round_even_of_int)
next
  case False
  then have "\<lfloor>y\<rfloor> + 1 \<le> j" using assms by linarith
  moreover have "round_even y \<le> \<lfloor>y\<rfloor> + 1" by (simp add: round_even_def Let_def)
  ultimately show ?thesis by linarith
qed

lemma round_even_ge:
  assumes "of_int j \<le> y"
  shows "j \<le> round_even y"
proof -
  have "j \<le> \<lfloor>y\<rfloor>" using assms by linarith
  moreover have "\<lfloor>y\<rfloor> \<le> round_even y" by (simp add: round_even_def Let_def)
  ultimately show ?thesis by linarith
qed

lemma round_to_double_error: "\<bar>round_to_double y - y\<bar> \<le> 2 powi quantum_exp y / 2"
proof -
  define q :: real where "q = 2 powi quantum_exp y"
  have q: "0 < q" by (simp add: q_def)
  have "round_to_double y - y = (of_int (round_even (y / q)) - y / q) * q"
    using q by (simp add: round_to_double_def Let_def q_def field_simps)
  then have "\<bar>round_to_double y - y\<bar> = \<bar>of_int (round_even (y / q)) - y / q\<bar> * q"
    using q by (simp add: abs_mult)
  also have "\<dots> \<le> 1 / 2 * q"
    using round_even_near [of "y / q"] q by (intro mult_right_mono) simp_all
  finally show ?thesis by (simp add: q_def)
qed

lemma round_to_double_le:
  assumes "quantum_exp y \<le> e" "y \<le> of_int j * 2 powi e"
  shows "round_to_double y \<le> of_int j * 2 powi e"
proof -
  define q :: real where "q = 2 powi quantum_exp y"
  define J where "J = j * 2 ^ nat (e - quantum_exp y)"
  have q: "0 < q" by (simp add: q_def)
  have c: "of_int j * 2 powi e = of_int J * q"
    unfolding J_def q_def using assms(1) by (rule two_powi_multiple)
  have "y / q \<le> of_int J" using assms(2) q unfolding c by (simp add: field_simps)
  then have "round_even (y / q) \<le> J" by (rule round_even_le)
  then have "real_of_int (round_even (y / q)) \<le> of_int J" by (simp only: of_int_le_iff)
  then have "of_int (round_even (y / q)) * q \<le> of_int J * q"
    using q by (intro mult_right_mono) simp_all
  then show ?thesis unfolding c by (simp add: round_to_double_def Let_def q_def)
qed

lemma round_to_double_ge:
  assumes "quantum_exp y \<le> e" "of_int j * 2 powi e \<le> y"
  shows "of_int j * 2 powi e \<le> round_to_double y"
proof -
  define q :: real where "q = 2 powi quantum_exp y"
  define J where "J = j * 2 ^ nat (e - quantum_exp y)"
  have q: "0 < q" by (simp add: q_def)
  have c: "of_int j * 2 powi e = of_int J * q"
    unfolding J_def q_def using assms(1) by (rule two_powi_multiple)
  have "of_int J \<le> y / q" using assms(2) q unfolding c by (simp add: field_simps)
  then have "J \<le> round_even (y / q)" by (rule round_even_ge)
  then have "real_of_int J \<le> of_int (round_even (y / q))" by (simp only: of_int_le_iff)
  then have "of_int J * q \<le> of_int (round_even (y / q)) * q"
    using q by (intro mult_right_mono) simp_all
  then show ?thesis unfolding c by (simp add: round_to_double_def Let_def q_def)
qed

lemma round_to_double_exact:
  assumes "quantum_exp y \<le> e" "y = of_int j * 2 powi e"
  shows "round_to_double y = y"
  using round_to_double_le [OF assms(1), of j] round_to_double_ge [OF assms(1), of j] assms(2)
  by simp

lemma round_to_double_zero: "round_to_double 0 = 0"
  by (simp add: round_to_double_def Let_def round_even_def)


lemma round_to_double_nonneg: "0 \<le> y \<Longrightarrow> 0 \<le> round_to_double y"
  using round_to_double_ge [of y "quantum_exp y" 0] by simp

lemma quantum_le:
  "2 powi quantum_exp y \<le> max 1 \<bar>y\<bar>"
proof (cases "y = 0")
  case True
  have "(2::real) powi (- 52) \<le> 2 powi 0" by (rule two_powi_mono) simp
  then show ?thesis using True by (simp add: quantum_exp_zero)
next
  case False
  then have a: "0 < \<bar>y\<bar>" by simp
  show ?thesis
  proof (cases "- 1074 \<le> ilog2 \<bar>y\<bar> - 52")
    case True
    then have e: "quantum_exp y = ilog2 \<bar>y\<bar> - 52" by (simp add: quantum_exp_def)
    have "(2::real) powi quantum_exp y \<le> 2 powi ilog2 \<bar>y\<bar>"
      unfolding e by (rule two_powi_mono) simp
    then have "2 powi quantum_exp y \<le> \<bar>y\<bar>"
      using ilog2_bounds [OF a] by linarith
    then show ?thesis by linarith
  next
    case False
    then have "quantum_exp y = - 1074" by (simp add: quantum_exp_def)
    moreover have "(2::real) powi (- 1074) \<le> 2 powi 0" by (rule two_powi_mono) simp
    ultimately show ?thesis by simp
  qed
qed

lemma double_of_real_finite:
  assumes "\<bar>y\<bar> \<le> 2 ^ 100"
  shows "double_of_real y = Fin (round_to_double y)"
proof -
  have "\<bar>round_to_double y\<bar> \<le> \<bar>y\<bar> + 2 powi quantum_exp y / 2"
    using round_to_double_error [of y] by linarith
  also have "\<dots> \<le> 2 ^ 100 + max 1 \<bar>y\<bar>"
    using assms quantum_le [of y] by linarith
  also have "\<dots> \<le> 2 ^ 100 + 2 ^ 100" using assms by simp
  also have "\<dots> < (2::real) ^ 1024" by simp
  finally show ?thesis by (simp add: double_of_real_def Let_def)
qed

lemma double_of_real_exact:
  assumes "\<bar>y\<bar> \<le> 2 ^ 100" "quantum_exp y \<le> e" "y = of_int j * 2 powi e"
  shows "double_of_real y = Fin y"
  using double_of_real_finite [OF assms(1)] round_to_double_exact [OF assms(2,3)] by simp


lemma double_of_int_exact:
  assumes "\<bar>n\<bar> < 2 ^ 53"
  shows "double_of_int n = Fin (of_int n)"
proof (cases "n = 0")
  case True
  then show ?thesis
    using double_of_real_finite [of 0] by (simp add: double_of_int_def round_to_double_zero)
next
  case False
  have "real_of_int \<bar>n\<bar> < of_int (2 ^ 53)" using assms by (simp only: of_int_less_iff)
  then have b: "\<bar>real_of_int n\<bar> < 2 ^ 53" by simp
  then have "\<bar>real_of_int n\<bar> < 2 powi (52 + 1)" by simp
  then have "quantum_exp (of_int n) \<le> 52 - 52"
    using False by (intro quantum_exp_upper) simp_all
  then have q: "quantum_exp (of_int n) \<le> 0" by simp
  have "\<bar>real_of_int n\<bar> \<le> 2 ^ 100" using b by simp
  then show ?thesis
    unfolding double_of_int_def using q by (rule double_of_real_exact) simp
qed

lemma double_of_int_pow10:
  assumes "p \<le> 9"
  shows "double_of_int (10 ^ p) = Fin (10 ^ p)"
proof -
  have "(10::int) ^ p \<le> 10 ^ 9" using assms by (intro power_increasing) simp_all
  then have "\<bar>(10::int) ^ p\<bar> < 2 ^ 53" by simp
  then show ?thesis using double_of_int_exact [of "10 ^ p"] by simp
qed

section \<open>The fraction of YYYYMMDDhhmmssToDateTime64\<close>





lemma llround_small:
  assumes "\<bar>x\<bar> < 2 ^ 52"
  shows "llround (Fin x) = round_half_away x" "\<bar>round_half_away x\<bar> < 2 ^ 53"
proof -
  have "\<bar>real_of_int (round_half_away x)\<bar> \<le> \<bar>x\<bar> + 1 / 2"
    using round_half_away_near [of x] by linarith
  then have "real_of_int \<bar>round_half_away x\<bar> < of_int (2 ^ 53)" using assms by simp
  then show b: "\<bar>round_half_away x\<bar> < 2 ^ 53" by (simp only: of_int_less_iff)
  then show "llround (Fin x) = round_half_away x"
    by (intro llround_in_range) simp_all
qed

lemma llround_bounded:
  assumes "\<bar>y\<bar> \<le> 2 ^ 31"
  shows "llround (Fin y) = round_half_away y"
proof -
  have "\<bar>real_of_int (round_half_away y)\<bar> \<le> \<bar>y\<bar> + 1 / 2"
    using round_half_away_near [of y] by linarith
  then have "real_of_int \<bar>round_half_away y\<bar> < of_int (2 ^ 32)" using assms by simp
  then have "\<bar>round_half_away y\<bar> < 2 ^ 32" by (simp only: of_int_less_iff)
  then show ?thesis by (intro llround_in_range) simp_all
qed

lemma small_errors:
  "(1::real) / 2 ^ 54 \<le> 1 / 2" "(1::real) / 2 ^ 23 \<le> 1" "(2::real) ^ 30 + 1 \<le> 2 ^ 31"
  by simp_all

lemma pow10_bound: "p \<le> 9 \<Longrightarrow> (10::real) ^ p \<le> 2 ^ 30"
proof -
  assume "p \<le> 9"
  then have "(10::real) ^ p \<le> 10 ^ 9" by (intro power_increasing) simp_all
  then show ?thesis by simp
qed

lemma residue_double:
  assumes "\<bar>x\<bar> < 2 ^ 52"
  shows "flt_sub (Fin x) (double_of_int (llround (Fin x))) =
         Fin (round_to_double (x - of_int (round_half_away x)))"
proof -
  have "double_of_int (round_half_away x) = Fin (of_int (round_half_away x))"
    using llround_small(2) [OF assms] by (rule double_of_int_exact)
  moreover have "\<bar>x - of_int (round_half_away x)\<bar> \<le> 2 ^ 100"
    using round_half_away_near [of x] by simp
  ultimately show ?thesis
    by (simp add: llround_small(1) [OF assms] double_of_real_finite del: llround.simps)
qed

lemma round_to_double_error_below:
  assumes "\<bar>y\<bar> < 2 powi (k + 1)" "- 1022 \<le> k"
  shows "\<bar>round_to_double y - y\<bar> \<le> 2 powi (k - 53)"
proof (cases "y = 0")
  case True
  then show ?thesis by (simp add: round_to_double_zero)
next
  case False
  then have "quantum_exp y \<le> k - 52" using assms by (rule quantum_exp_upper)
  then have "(2::real) powi quantum_exp y \<le> 2 powi (k - 52)" by (rule two_powi_mono)
  moreover have "(2::real) powi (k - 52) = 2 * 2 powi (k - 53)"
    using power_int_add [of "2::real" 1 "k - 53"] by simp
  ultimately show ?thesis using round_to_double_error [of y] by linarith
qed

lemma residue_error:
  assumes "\<bar>r\<bar> \<le> 1 / 2"
  shows "\<bar>round_to_double r - r\<bar> \<le> 1 / 2 ^ 54"
proof -
  have "\<bar>r\<bar> < 2 powi (- 1 + 1)" using assms by simp
  then have "\<bar>round_to_double r - r\<bar> \<le> 2 powi (- 1 - 53)"
    by (rule round_to_double_error_below) simp
  then show ?thesis by (simp add: power_int_minus_divide)
qed

lemma product_double:
  assumes "\<bar>d\<bar> \<le> 1" "p \<le> 9"
  shows "flt_mul (Fin d) (double_of_int (10 ^ p)) = Fin (round_to_double (d * 10 ^ p))"
    and "\<bar>round_to_double (d * 10 ^ p) - d * 10 ^ p\<bar> \<le> 1 / 2 ^ 24"
    and "llround (Fin (round_to_double (d * 10 ^ p))) =
         round_half_away (round_to_double (d * 10 ^ p))"
proof -
  have "\<bar>d * 10 ^ p\<bar> = \<bar>d\<bar> * 10 ^ p" by (simp add: abs_mult)
  also have "\<dots> \<le> 1 * 10 ^ p" using assms(1) by (intro mult_right_mono) simp_all
  finally have b: "\<bar>d * 10 ^ p\<bar> \<le> 2 ^ 30" using pow10_bound [OF assms(2)] by simp
  then have "\<bar>d * 10 ^ p\<bar> \<le> 2 ^ 100" by simp
  then show "flt_mul (Fin d) (double_of_int (10 ^ p)) = Fin (round_to_double (d * 10 ^ p))"
    using double_of_int_pow10 [OF assms(2)] by (simp add: double_of_real_finite)
  have "\<bar>d * 10 ^ p\<bar> < 2 powi (30 + 1)" using b by simp
  then have "\<bar>round_to_double (d * 10 ^ p) - d * 10 ^ p\<bar> \<le> 2 powi (30 - 53)"
    by (rule round_to_double_error_below) simp
  then have "\<bar>round_to_double (d * 10 ^ p) - d * 10 ^ p\<bar> \<le> 1 / 2 ^ 23"
    by (simp add: power_int_minus_divide)
  then have "\<bar>round_to_double (d * 10 ^ p)\<bar> \<le> 2 ^ 31"
    using b small_errors(2,3) by linarith
  then show "llround (Fin (round_to_double (d * 10 ^ p))) =
         round_half_away (round_to_double (d * 10 ^ p))"
    by (rule llround_bounded)
  show "\<bar>round_to_double (d * 10 ^ p) - d * 10 ^ p\<bar> \<le> 1 / 2 ^ 24"
  proof -
    have "\<bar>d * 10 ^ p\<bar> < 2 powi (29 + 1)"
    proof -
      have "(10::real) ^ p \<le> 10 ^ 9" using assms(2) by (intro power_increasing) simp_all
      then have "(10::real) ^ p < 2 ^ 30" by simp
      moreover have "\<bar>d * 10 ^ p\<bar> \<le> 1 * 10 ^ p"
        unfolding abs_mult using assms(1) by (intro mult_mono) simp_all
      ultimately show ?thesis by simp
    qed
    then have "\<bar>round_to_double (d * 10 ^ p) - d * 10 ^ p\<bar> \<le> 2 powi (29 - 53)"
      by (rule round_to_double_error_below) simp
    then show ?thesis by (simp add: power_int_minus_divide)
  qed
qed

lemma YYYYMMDDhhmmssToDateTime64_fraction_rounded:
  assumes "\<bar>x\<bar> < 2 ^ 52" "p \<le> 9"
  shows "snd (YYYYMMDDhhmmssToDateTime64_components lut p (Fin x)) =
         round_half_away
           (round_to_double (round_to_double (x - of_int (round_half_away x)) * 10 ^ p))"
proof -
  have "\<bar>round_to_double (x - of_int (round_half_away x))\<bar> \<le> 1"
    using residue_error [OF round_half_away_near [of x]] round_half_away_near [of x]
      small_errors(1) by linarith
  note d = product_double [OF this assms(2)]
  show ?thesis
    unfolding YYYYMMDDhhmmssToDateTime64_components_def Let_def residue_double [OF assms(1)]
      d(1) d(3) by simp
qed






lemma YYYYMMDDhhmmssToDateTime64_components_eq:
  "YYYYMMDDhhmmssToDateTime64_components lut p c =
     (dateTime_of_fields lut (decompose (llround c)),
      llround (flt_mul (flt_sub c (double_of_int (llround c))) (double_of_int (10 ^ p))))"
  by (simp add: YYYYMMDDhhmmssToDateTime64_components_def Let_def)


lemma packed_decompose:
  "decompose 20230911123457 = (2023, 9, 11, 12, 34, 57)"
  "decompose 0 = (0, 0, 0, 0, 0, 0)"
  "decompose 23000101000000 = (2300, 1, 1, 0, 0, 0)"
  "decompose 2 = (0, 0, 0, 0, 0, 2)"
  "decompose 22700101000000 = (2270, 1, 1, 0, 0, 0)"
  "decompose 20230911123456 = (2023, 9, 11, 12, 34, 56)"
  by (simp_all add: decompose_def signed_divide_int_def signed_modulo_int_def)

lemma utc_days_2270: "days_from_civil 2270 1 1 = 109573"
  by (simp add: days_from_civil_def)

lemma packed_dateTime:
  "dateTime_of_fields utc_lut (2023, 9, 11, 12, 34, 57) = 1694435697"
  "dateTime_of_fields utc_lut (0, 0, 0, 0, 0, 0) = minDateTime utc_lut"
  "dateTime_of_fields utc_lut (2300, 1, 1, 0, 0, 0) = maxDateTime utc_lut"
  "dateTime_of_fields utc_lut (0, 0, 0, 0, 0, 2) = minDateTime utc_lut"
  "dateTime_of_fields utc_lut (2270, 1, 1, 0, 0, 0) = 9467107200"
  "dateTime_of_fields utc_lut (2023, 9, 11, 12, 34, 56) = 1694435696"
  by (simp_all add: dateTime_of_fields_def dateTime_def utc_simps utc_days_2270)







section \<open>The packed functions and non-finite arguments\<close>

lemma YYYYMMDDToDate_loop_finite:
  "\<forall>c\<in>set cells. \<not> isinf c \<and> \<not> isnan c \<Longrightarrow>
   FunctionYYYYYMMDDToDate_executeImpl t lut cells = Inr (map (YYYYMMDDToDate_row t lut) cells)"
  by (induction cells) simp_all

lemma YYYYMMDDToDate_loop_nonfinite:
  "\<exists>c\<in>set cells. isinf c \<or> isnan c \<Longrightarrow>
   FunctionYYYYYMMDDToDate_executeImpl t lut cells = Inl (BAD_ARGUMENTS (YYYYMMDDName t))"
proof (induction cells)
  case Nil
  then show ?case by simp
next
  case (Cons c cs)
  show ?case
  proof (cases "isinf c \<or> isnan c")
    case True
    then show ?thesis by simp
  next
    case False
    then have "\<exists>c\<in>set cs. isinf c \<or> isnan c" using Cons.prems by auto
    then show ?thesis using False Cons.IH by simp
  qed
qed

lemma YYYYMMDDhhmmssToDateTime_loop_finite:
  "\<forall>c\<in>set cells. \<not> isinf c \<and> \<not> isnan c \<Longrightarrow>
   FunctionYYYYMMDDhhmmssToDateTime_executeImpl lut cells =
     Inr (map (YYYYMMDDhhmmssToDateTime_row lut) cells)"
  by (induction cells) simp_all

lemma YYYYMMDDhhmmssToDateTime_loop_nonfinite:
  "\<exists>c\<in>set cells. isinf c \<or> isnan c \<Longrightarrow>
   FunctionYYYYMMDDhhmmssToDateTime_executeImpl lut cells =
     Inl (BAD_ARGUMENTS ''YYYYMMDDhhmmssToDateTime'')"
proof (induction cells)
  case Nil
  then show ?case by simp
next
  case (Cons c cs)
  show ?case
  proof (cases "isinf c \<or> isnan c")
    case True
    then show ?thesis by simp
  next
    case False
    then have "\<exists>c\<in>set cs. isinf c \<or> isnan c" using Cons.prems by auto
    then show ?thesis using False Cons.IH by simp
  qed
qed

lemma YYYYMMDDhhmmssToDateTime64_loop_step:
  assumes "\<not> isinf c" "\<not> isnan c"
  shows "YYYYMMDDhhmmssToDateTime64_loop lut p (c # cs) =
     (if packing_fits lut p c
      then (case YYYYMMDDhhmmssToDateTime64_loop lut p cs of
              Inl e \<Rightarrow> Inl e
            | Inr res \<Rightarrow> Inr (YYYYMMDDhhmmssToDateTime64_row lut p c # res))
      else Inl DECIMAL_OVERFLOW)"
proof -
  obtain dt fr where c: "YYYYMMDDhhmmssToDateTime64_components lut p c = (dt, fr)"
    by (cases "YYYYMMDDhhmmssToDateTime64_components lut p c")
  have r: "YYYYMMDDhhmmssToDateTime64_row lut p c = decimalFromComponents dt fr p"
    by (simp add: YYYYMMDDhhmmssToDateTime64_row_def c)
  have f: "packing_fits lut p c =
      (fits_Int64 (dt * 10 ^ p) \<and> fits_Int64 (decimalFromComponents dt fr p))"
    by (simp add: packing_fits_def c)
  show ?thesis
    unfolding f r using assms by (simp add: c decimalFromComponents_checked_def)
qed

lemma YYYYMMDDhhmmssToDateTime64_loop_fits:
  "\<forall>c\<in>set cells. \<not> isinf c \<and> \<not> isnan c \<and> packing_fits lut p c \<Longrightarrow>
   YYYYMMDDhhmmssToDateTime64_loop lut p cells =
     Inr (map (YYYYMMDDhhmmssToDateTime64_row lut p) cells)"
proof (induction cells)
  case Nil
  then show ?case by simp
next
  case (Cons c cs)
  then show ?case
    by (simp add: YYYYMMDDhhmmssToDateTime64_loop_step del: YYYYMMDDhhmmssToDateTime64_loop.simps)
qed

lemma YYYYMMDDhhmmssToDateTime64_loop_append:
  assumes "\<forall>c\<in>set pre. \<not> isinf c \<and> \<not> isnan c \<and> packing_fits lut p c"
  shows "YYYYMMDDhhmmssToDateTime64_loop lut p (pre @ rest) =
     (case YYYYMMDDhhmmssToDateTime64_loop lut p rest of
        Inl e \<Rightarrow> Inl e
      | Inr res \<Rightarrow> Inr (map (YYYYMMDDhhmmssToDateTime64_row lut p) pre @ res))"
  using assms
proof (induction pre)
  case Nil
  then show ?case by (simp split: sum.split)
next
  case (Cons c cs)
  then show ?case
    by (simp add: YYYYMMDDhhmmssToDateTime64_loop_step split: sum.split
        del: YYYYMMDDhhmmssToDateTime64_loop.simps)
qed

lemma YYYYMMDDhhmmssToDateTime64_loop_overflow:
  assumes "\<forall>c\<in>set cells. \<not> isinf c \<and> \<not> isnan c" "\<exists>c\<in>set cells. \<not> packing_fits lut p c"
  shows "YYYYMMDDhhmmssToDateTime64_loop lut p cells = Inl DECIMAL_OVERFLOW"
  using assms
proof (induction cells)
  case Nil
  then show ?case by simp
next
  case (Cons c cs)
  show ?case
  proof (cases "packing_fits lut p c")
    case False
    then show ?thesis
      using Cons.prems(1)
      by (simp add: YYYYMMDDhhmmssToDateTime64_loop_step
          del: YYYYMMDDhhmmssToDateTime64_loop.simps)
  next
    case True
    then have "\<exists>c\<in>set cs. \<not> packing_fits lut p c" using Cons.prems(2) by auto
    then have "YYYYMMDDhhmmssToDateTime64_loop lut p cs = Inl DECIMAL_OVERFLOW"
      using Cons.IH Cons.prems(1) by simp
    then show ?thesis
      using True Cons.prems(1)
      by (simp add: YYYYMMDDhhmmssToDateTime64_loop_step
          del: YYYYMMDDhhmmssToDateTime64_loop.simps)
  qed
qed

lemma YYYYMMDDhhmmssToDateTime64_loop_nonfinite:
  "\<exists>c\<in>set cells. isinf c \<or> isnan c \<Longrightarrow>
   \<exists>e. YYYYMMDDhhmmssToDateTime64_loop lut p cells = Inl e"
proof (induction cells)
  case Nil
  then show ?case by simp
next
  case (Cons c cs)
  show ?case
  proof (cases "isinf c \<or> isnan c")
    case True
    then show ?thesis by simp
  next
    case False
    then have "\<exists>c\<in>set cs. isinf c \<or> isnan c" using Cons.prems by auto
    then obtain e where "YYYYMMDDhhmmssToDateTime64_loop lut p cs = Inl e"
      using Cons.IH by blast
    then show ?thesis
      using False
      by (simp add: YYYYMMDDhhmmssToDateTime64_loop_step
          del: YYYYMMDDhhmmssToDateTime64_loop.simps)
  qed
qed

lemma smod_bound: "0 < m \<Longrightarrow> \<bar>k smod m\<bar> < m" for k m :: int
proof -
  assume m: "0 < m"
  have "\<bar>k smod m\<bar> = \<bar>sgn k\<bar> * (\<bar>k\<bar> mod m)"
    using m by (simp add: signed_modulo_int_def abs_mult)
  also have "\<dots> \<le> \<bar>k\<bar> mod m" by (cases "k = 0") (simp_all add: abs_sgn_eq)
  also have "\<dots> < m" using m by simp
  finally show ?thesis .
qed

lemma packing_fits_small:
  assumes "(\<bar>fst (YYYYMMDDhhmmssToDateTime64_components lut p c)\<bar> + 1) * 10 ^ p \<le> 2 ^ 63"
  shows "packing_fits lut p c"
proof -
  obtain dt fr where c: "YYYYMMDDhhmmssToDateTime64_components lut p c = (dt, fr)"
    by (cases "YYYYMMDDhhmmssToDateTime64_components lut p c")
  have a: "\<bar>dt\<bar> * 10 ^ p + 10 ^ p \<le> 2 ^ 63" using assms c by (simp add: algebra_simps)
  have m: "\<bar>fr smod 10 ^ p\<bar> < 10 ^ p" by (rule smod_bound) simp
  have s: "\<bar>dt * 10 ^ p\<bar> = \<bar>dt\<bar> * 10 ^ p" by (simp add: abs_mult)
  have p: "(0::int) < 10 ^ p" by simp
  have "\<bar>dt * 10 ^ p\<bar> < 2 ^ 63" using a s p by linarith
  then have f1: "fits_Int64 (dt * 10 ^ p)" by (simp add: fits_Int64_def) linarith
  have "decimalFromComponents dt fr p = dt * 10 ^ p + fr smod 10 ^ p \<or>
      decimalFromComponents dt fr p = dt * 10 ^ p - fr smod 10 ^ p"
    by (simp add: decimalFromComponents_def)
  then have "\<bar>decimalFromComponents dt fr p\<bar> \<le> \<bar>dt * 10 ^ p\<bar> + \<bar>fr smod 10 ^ p\<bar>"
    by (elim disjE) linarith+
  then have "\<bar>decimalFromComponents dt fr p\<bar> < 2 ^ 63" using a s m by linarith
  then have f2: "fits_Int64 (decimalFromComponents dt fr p)"
    by (simp add: fits_Int64_def) linarith
  show ?thesis using f1 f2 by (simp add: packing_fits_def c)
qed

lemma executeImpl64_precision:
  assumes "precision_argument = None \<and> p = 3 \<or>
           (\<exists>a. precision_argument = Some a \<and> 0 \<le> a \<and> a \<le> 9 \<and> p = nat a)"
  shows "FunctionYYYYMMDDhhmmssToDateTime64_executeImpl lut precision_argument cells =
         YYYYMMDDhhmmssToDateTime64_loop lut p cells"
  using assms
  by (auto simp add: FunctionYYYYMMDDhhmmssToDateTime64_executeImpl_def extractPrecision_def
      DEFAULT_PRECISION_def)

lemma YYYYMMDDhhmmssToDateTime64_components_int:
  assumes "\<bar>real_of_int n\<bar> < 2 ^ 52" "p \<le> 9"
  shows "YYYYMMDDhhmmssToDateTime64_components lut p (Fin (of_int n)) =
         (dateTime_of_fields lut (decompose n), 0)"
proof -
  have l: "llround (Fin (of_int n)) = n"
    using llround_small(1) [OF assms(1)] by (simp add: round_half_away_of_int)
  have "snd (YYYYMMDDhhmmssToDateTime64_components lut p (Fin (of_int n))) =
      round_half_away (round_to_double
        (round_to_double (of_int n - of_int (round_half_away (of_int n))) * 10 ^ p))"
    using assms by (rule YYYYMMDDhhmmssToDateTime64_fraction_rounded)
  then have "snd (YYYYMMDDhhmmssToDateTime64_components lut p (Fin (of_int n))) = 0"
    using round_half_away_of_int [of 0]
    by (simp add: round_half_away_of_int round_to_double_zero)
  moreover have "fst (YYYYMMDDhhmmssToDateTime64_components lut p (Fin (of_int n))) =
      dateTime_of_fields lut (decompose n)"
    unfolding YYYYMMDDhhmmssToDateTime64_components_eq l by simp
  ultimately show ?thesis by (simp add: prod_eq_iff)
qed

lemma packed_cells:
  "YYYYMMDDhhmmssToDateTime64_components utc_lut 9 (Fin 22700101000000) = (9467107200, 0)"
  "YYYYMMDDhhmmssToDateTime64_components utc_lut 3 (Fin 22700101000000) = (9467107200, 0)"
  "YYYYMMDDhhmmssToDateTime64_components utc_lut 3 (Fin 20230911123456) = (1694435696, 0)"
  "YYYYMMDDhhmmssToDateTime64_components utc_lut 3 (Fin 0) = (- 2208988800, 0)"
  "YYYYMMDDhhmmssToDateTime64_components utc_lut 9 (Fin 20230911123456) = (1694435696, 0)"
  using YYYYMMDDhhmmssToDateTime64_components_int [of 22700101000000 9 utc_lut]
    YYYYMMDDhhmmssToDateTime64_components_int [of 20230911123456 9 utc_lut]
    YYYYMMDDhhmmssToDateTime64_components_int [of 22700101000000 3 utc_lut]
    YYYYMMDDhhmmssToDateTime64_components_int [of 20230911123456 3 utc_lut]
    YYYYMMDDhhmmssToDateTime64_components_int [of 0 3 utc_lut]
  by (simp_all add: packed_decompose packed_dateTime utc_sentinels)

text \<open>
  Claim C5 says that a call of a packed function with finite cells only never fails.
  \<open>YYYYMMDDhhmmssToDateTime64\<close> packs each row as a signed 64-bit decimal, and the packing
  of the packed date 22700101000000 at precision 9 leaves that range: the call ends with
  a decimal overflow error.
\<close>

theorem packed_functions_finite_counterexample:
  "\<not> isinf (Fin 22700101000000) \<and> \<not> isnan (Fin 22700101000000) \<and>
   FunctionYYYYMMDDhhmmssToDateTime64_executeImpl utc_lut (Some 9) [Fin 22700101000000] =
     Inl DECIMAL_OVERFLOW"
proof -
  have "\<not> packing_fits utc_lut 9 (Fin 22700101000000)"
    by (simp add: packing_fits_def packed_cells fits_Int64_def)
  then have "YYYYMMDDhhmmssToDateTime64_loop utc_lut 9 [Fin 22700101000000] =
      Inl DECIMAL_OVERFLOW"
    by (intro YYYYMMDDhhmmssToDateTime64_loop_overflow) simp_all
  moreover have "FunctionYYYYMMDDhhmmssToDateTime64_executeImpl utc_lut (Some 9)
      [Fin 22700101000000] = YYYYMMDDhhmmssToDateTime64_loop utc_lut 9 [Fin 22700101000000]"
    by (rule executeImpl64_precision) simp
  ultimately show ?thesis by simp
qed

text \<open>
  Claim C5, amended. Each of \<open>YYYYMMDDToDate\<close>, \<open>YYYYMMDDToDate32\<close> and
  \<open>YYYYMMDDhhmmssToDateTime\<close> fails with the invalid-argument error carrying its own name,
  and returns no column, as soon as one cell of the argument is infinite or
  not-a-number; when every cell is finite the call returns one value per row, whatever
  the decomposed fields are. \<open>YYYYMMDDhhmmssToDateTime64\<close> fails, and returns no column,
  when a cell is infinite or not-a-number; with finite cells only it returns one value
  per row if the packing of every row stays within the signed 64-bit range, and fails
  with the decimal overflow error otherwise. Rows are handled in order: after rows that
  are finite and fit, a cell that is not finite gives the invalid-argument error with the
  name of the function, and a finite row that does not fit gives the decimal overflow
  error. A row fits whenever its seconds, increased by one in magnitude and scaled by
  \<open>10^precision\<close>, do not exceed \<open>2^63\<close>. The precision argument is absent or within
  0..9, as the type check before execution has established.
\<close>

theorem packed_functions_fail_only_on_nonfinite:
  assumes "precision_argument = None \<and> p = 3 \<or>
           (\<exists>a. precision_argument = Some a \<and> 0 \<le> a \<and> a \<le> 9 \<and> p = nat a)"
  shows
   "((\<exists>c\<in>set cells. isinf c \<or> isnan c) \<longrightarrow>
       FunctionYYYYYMMDDToDate_executeImpl DateTraits lut cells =
         Inl (BAD_ARGUMENTS ''YYYYMMDDToDate'') \<and>
       FunctionYYYYYMMDDToDate_executeImpl Date32Traits lut cells =
         Inl (BAD_ARGUMENTS ''YYYYMMDDToDate32'') \<and>
       FunctionYYYYMMDDhhmmssToDateTime_executeImpl lut cells =
         Inl (BAD_ARGUMENTS ''YYYYMMDDhhmmssToDateTime'') \<and>
       (\<exists>e. FunctionYYYYMMDDhhmmssToDateTime64_executeImpl lut precision_argument cells =
         Inl e)) \<and>
    ((\<forall>c\<in>set cells. \<not> isinf c \<and> \<not> isnan c) \<longrightarrow>
       FunctionYYYYYMMDDToDate_executeImpl DateTraits lut cells =
         Inr (map (YYYYMMDDToDate_row DateTraits lut) cells) \<and>
       FunctionYYYYYMMDDToDate_executeImpl Date32Traits lut cells =
         Inr (map (YYYYMMDDToDate_row Date32Traits lut) cells) \<and>
       FunctionYYYYMMDDhhmmssToDateTime_executeImpl lut cells =
         Inr (map (YYYYMMDDhhmmssToDateTime_row lut) cells) \<and>
       FunctionYYYYMMDDhhmmssToDateTime64_executeImpl lut precision_argument cells =
         (if \<forall>c\<in>set cells. packing_fits lut p c
          then Inr (map (YYYYMMDDhhmmssToDateTime64_row lut p) cells)
          else Inl DECIMAL_OVERFLOW)) \<and>
    ((\<forall>c\<in>set pre. \<not> isinf c \<and> \<not> isnan c \<and> packing_fits lut p c) \<and>
     (isinf bad \<or> isnan bad) \<longrightarrow>
       FunctionYYYYMMDDhhmmssToDateTime64_executeImpl lut precision_argument
           (pre @ bad # post) =
         Inl (BAD_ARGUMENTS ''YYYYMMDDhhmmssToDateTime64'')) \<and>
    ((\<forall>c\<in>set pre. \<not> isinf c \<and> \<not> isnan c \<and> packing_fits lut p c) \<and>
     \<not> isinf bad \<and> \<not> isnan bad \<and> \<not> packing_fits lut p bad \<longrightarrow>
       FunctionYYYYMMDDhhmmssToDateTime64_executeImpl lut precision_argument
           (pre @ bad # post) =
         Inl DECIMAL_OVERFLOW) \<and>
    ((\<bar>fst (YYYYMMDDhhmmssToDateTime64_components lut p x)\<bar> + 1) * 10 ^ p \<le> 2 ^ 63 \<longrightarrow>
       packing_fits lut p x)"
proof (intro conjI impI)
  assume bad: "\<exists>c\<in>set cells. isinf c \<or> isnan c"
  show "FunctionYYYYYMMDDToDate_executeImpl DateTraits lut cells =
         Inl (BAD_ARGUMENTS ''YYYYMMDDToDate'')"
    using YYYYMMDDToDate_loop_nonfinite [OF bad, of DateTraits lut]
    by (simp add: DateTraits_sel)
  show "FunctionYYYYYMMDDToDate_executeImpl Date32Traits lut cells =
         Inl (BAD_ARGUMENTS ''YYYYMMDDToDate32'')"
    using YYYYMMDDToDate_loop_nonfinite [OF bad, of Date32Traits lut]
    by (simp add: Date32Traits_sel)
  show "FunctionYYYYMMDDhhmmssToDateTime_executeImpl lut cells =
         Inl (BAD_ARGUMENTS ''YYYYMMDDhhmmssToDateTime'')"
    using bad by (rule YYYYMMDDhhmmssToDateTime_loop_nonfinite)
  show "\<exists>e. FunctionYYYYMMDDhhmmssToDateTime64_executeImpl lut precision_argument cells =
         Inl e"
    unfolding executeImpl64_precision [OF assms]
    using bad by (rule YYYYMMDDhhmmssToDateTime64_loop_nonfinite)
next
  assume fin: "\<forall>c\<in>set cells. \<not> isinf c \<and> \<not> isnan c"
  show "FunctionYYYYYMMDDToDate_executeImpl DateTraits lut cells =
         Inr (map (YYYYMMDDToDate_row DateTraits lut) cells)"
    using fin by (rule YYYYMMDDToDate_loop_finite)
  show "FunctionYYYYYMMDDToDate_executeImpl Date32Traits lut cells =
         Inr (map (YYYYMMDDToDate_row Date32Traits lut) cells)"
    using fin by (rule YYYYMMDDToDate_loop_finite)
  show "FunctionYYYYMMDDhhmmssToDateTime_executeImpl lut cells =
         Inr (map (YYYYMMDDhhmmssToDateTime_row lut) cells)"
    using fin by (rule YYYYMMDDhhmmssToDateTime_loop_finite)
  show "FunctionYYYYMMDDhhmmssToDateTime64_executeImpl lut precision_argument cells =
         (if \<forall>c\<in>set cells. packing_fits lut p c
          then Inr (map (YYYYMMDDhhmmssToDateTime64_row lut p) cells)
          else Inl DECIMAL_OVERFLOW)"
  proof (cases "\<forall>c\<in>set cells. packing_fits lut p c")
    case True
    then have "\<forall>c\<in>set cells. \<not> isinf c \<and> \<not> isnan c \<and> packing_fits lut p c"
      using fin by simp
    then show ?thesis
      unfolding executeImpl64_precision [OF assms] if_P [OF True]
      by (rule YYYYMMDDhhmmssToDateTime64_loop_fits)
  next
    case False
    then have "\<exists>c\<in>set cells. \<not> packing_fits lut p c" by simp
    then show ?thesis
      unfolding executeImpl64_precision [OF assms] if_not_P [OF False]
      using fin by (intro YYYYMMDDhhmmssToDateTime64_loop_overflow)
  qed
next
  assume a: "(\<forall>c\<in>set pre. \<not> isinf c \<and> \<not> isnan c \<and> packing_fits lut p c) \<and>
     (isinf bad \<or> isnan bad)"
  then show "FunctionYYYYMMDDhhmmssToDateTime64_executeImpl lut precision_argument
           (pre @ bad # post) =
         Inl (BAD_ARGUMENTS ''YYYYMMDDhhmmssToDateTime64'')"
    unfolding executeImpl64_precision [OF assms]
    by (simp add: YYYYMMDDhhmmssToDateTime64_loop_append)
next
  assume a: "(\<forall>c\<in>set pre. \<not> isinf c \<and> \<not> isnan c \<and> packing_fits lut p c) \<and>
     \<not> isinf bad \<and> \<not> isnan bad \<and> \<not> packing_fits lut p bad"
  then show "FunctionYYYYMMDDhhmmssToDateTime64_executeImpl lut precision_argument
           (pre @ bad # post) =
         Inl DECIMAL_OVERFLOW"
    unfolding executeImpl64_precision [OF assms]
    by (simp add: YYYYMMDDhhmmssToDateTime64_loop_append YYYYMMDDhhmmssToDateTime64_loop_step
        del: YYYYMMDDhhmmssToDateTime64_loop.simps)
next
  assume "(\<bar>fst (YYYYMMDDhhmmssToDateTime64_components lut p x)\<bar> + 1) * 10 ^ p \<le> 2 ^ 63"
  then show "packing_fits lut p x" by (rule packing_fits_small)
qed

theorem packed_functions_fail_only_on_nonfinite_witness:
  "FunctionYYYYYMMDDToDate_executeImpl DateTraits utc_lut [Fin 20230911, NaN] =
     Inl (BAD_ARGUMENTS ''YYYYMMDDToDate'') \<and>
   FunctionYYYYYMMDDToDate_executeImpl DateTraits utc_lut [Fin 20230911, Fin 20231399] =
     Inr [YYYYMMDDToDate_row DateTraits utc_lut (Fin 20230911),
          YYYYMMDDToDate_row DateTraits utc_lut (Fin 20231399)] \<and>
   packing_fits utc_lut 3 (Fin 20230911123456) \<and>
   FunctionYYYYMMDDhhmmssToDateTime64_executeImpl utc_lut (Some 3)
       [Fin 20230911123456, PInf, Fin 0] =
     Inl (BAD_ARGUMENTS ''YYYYMMDDhhmmssToDateTime64'') \<and>
   FunctionYYYYMMDDhhmmssToDateTime64_executeImpl utc_lut None [Fin 20230911123456, Fin 0] =
     Inr [1694435696000, - 2208988800000] \<and>
   FunctionYYYYMMDDhhmmssToDateTime64_executeImpl utc_lut (Some 9)
       [Fin 20230911123456, Fin 22700101000000, NaN] =
     Inl DECIMAL_OVERFLOW \<and>
   FunctionYYYYMMDDhhmmssToDateTime64_executeImpl utc_lut (Some 9)
       [Fin 20230911123456, NaN, Fin 22700101000000] =
     Inl (BAD_ARGUMENTS ''YYYYMMDDhhmmssToDateTime64'')"
proof -
  have a3: "Some (3::int) = None \<and> (3::nat) = 3 \<or>
           (\<exists>a. Some (3::int) = Some a \<and> 0 \<le> a \<and> a \<le> 9 \<and> (3::nat) = nat a)"
    by simp
  have a9: "Some (9::int) = None \<and> (9::nat) = 3 \<or>
           (\<exists>a. Some (9::int) = Some a \<and> 0 \<le> a \<and> a \<le> 9 \<and> (9::nat) = nat a)"
    by simp
  have an: "(None :: int option) = None \<and> (3::nat) = 3 \<or>
           (\<exists>a. (None :: int option) = Some a \<and> 0 \<le> a \<and> a \<le> 9 \<and> (3::nat) = nat a)"
    by simp
  have w1: "FunctionYYYYYMMDDToDate_executeImpl DateTraits utc_lut [Fin 20230911, NaN] =
     Inl (BAD_ARGUMENTS ''YYYYMMDDToDate'')"
    using packed_functions_fail_only_on_nonfinite
      [OF an, where cells = "[Fin 20230911, NaN]" and lut = utc_lut, THEN conjunct1]
    by simp
  have w2: "FunctionYYYYYMMDDToDate_executeImpl DateTraits utc_lut
      [Fin 20230911, Fin 20231399] =
     Inr [YYYYMMDDToDate_row DateTraits utc_lut (Fin 20230911),
          YYYYMMDDToDate_row DateTraits utc_lut (Fin 20231399)]"
    using packed_functions_fail_only_on_nonfinite
      [OF an, where cells = "[Fin 20230911, Fin 20231399]" and lut = utc_lut,
        THEN conjunct2, THEN conjunct1]
    by simp
  have f3a: "packing_fits utc_lut 3 (Fin 20230911123456)"
    using packed_functions_fail_only_on_nonfinite
      [OF a3, where lut = utc_lut and x = "Fin 20230911123456", THEN conjunct2,
        THEN conjunct2, THEN conjunct2, THEN conjunct2]
    by (simp add: packed_cells)
  have f3b: "packing_fits utc_lut 3 (Fin 0)"
    using packed_functions_fail_only_on_nonfinite
      [OF a3, where lut = utc_lut and x = "Fin 0", THEN conjunct2,
        THEN conjunct2, THEN conjunct2, THEN conjunct2]
    by (simp add: packed_cells)
  have f9a: "packing_fits utc_lut 9 (Fin 20230911123456)"
    using packed_functions_fail_only_on_nonfinite
      [OF a9, where lut = utc_lut and x = "Fin 20230911123456", THEN conjunct2,
        THEN conjunct2, THEN conjunct2, THEN conjunct2]
    by (simp add: packed_cells)
  have n9: "\<not> packing_fits utc_lut 9 (Fin 22700101000000)"
    by (simp add: packing_fits_def packed_cells fits_Int64_def)
  have w3: "FunctionYYYYMMDDhhmmssToDateTime64_executeImpl utc_lut (Some 3)
       [Fin 20230911123456, PInf, Fin 0] =
     Inl (BAD_ARGUMENTS ''YYYYMMDDhhmmssToDateTime64'')"
    using f3a packed_functions_fail_only_on_nonfinite
      [OF a3, where lut = utc_lut and pre = "[Fin 20230911123456]" and bad = PInf
        and post = "[Fin 0]", THEN conjunct2, THEN conjunct2, THEN conjunct1]
    by simp
  have r: "YYYYMMDDhhmmssToDateTime64_row utc_lut 3 (Fin 20230911123456) = 1694435696000"
    "YYYYMMDDhhmmssToDateTime64_row utc_lut 3 (Fin 0) = - 2208988800000"
    by (simp_all add: YYYYMMDDhhmmssToDateTime64_row_def packed_cells decimalFromComponents_def
        signed_modulo_int_def)
  have w4: "FunctionYYYYMMDDhhmmssToDateTime64_executeImpl utc_lut None
      [Fin 20230911123456, Fin 0] = Inr [1694435696000, - 2208988800000]"
    using f3a f3b packed_functions_fail_only_on_nonfinite
      [OF an, where lut = utc_lut and cells = "[Fin 20230911123456, Fin 0]",
        THEN conjunct2, THEN conjunct1]
    by (simp add: r)
  have w5: "FunctionYYYYMMDDhhmmssToDateTime64_executeImpl utc_lut (Some 9)
       [Fin 20230911123456, Fin 22700101000000, NaN] = Inl DECIMAL_OVERFLOW"
    using f9a n9 packed_functions_fail_only_on_nonfinite
      [OF a9, where lut = utc_lut and pre = "[Fin 20230911123456]"
        and bad = "Fin 22700101000000" and post = "[NaN]", THEN conjunct2, THEN conjunct2,
        THEN conjunct2, THEN conjunct1]
    by simp
  have w6: "FunctionYYYYMMDDhhmmssToDateTime64_executeImpl utc_lut (Some 9)
       [Fin 20230911123456, NaN, Fin 22700101000000] =
     Inl (BAD_ARGUMENTS ''YYYYMMDDhhmmssToDateTime64'')"
    using f9a packed_functions_fail_only_on_nonfinite
      [OF a9, where lut = utc_lut and pre = "[Fin 20230911123456]" and bad = NaN
        and post = "[Fin 22700101000000]", THEN conjunct2, THEN conjunct2, THEN conjunct1]
    by simp
  show ?thesis
    using w1 w2 f3a w3 w4 w5 w6 by (intro conjI)
qed

section \<open>Arguments with a fractional part above one half\<close>






end
